theory Spec2Isabelle
  imports Complex_Main "HOL-Library.AList" "HOL-Library.Log_Nat" "HOL-Library.Sublist"
begin

section \<open>Strings\<close>

text \<open>
  A Python \<open>str\<close> is a sequence of Unicode code points and \<open>len\<close> counts code points, so
  a string is modelled as a list of code points. \<open>str\<close> turns an ASCII literal of HOL into
  such a list.
\<close>

type_synonym codepoint = int
type_synonym pystr = "codepoint list"

definition str :: "string \<Rightarrow> pystr" where
  "str s = map of_char s"

text \<open>
  \<open>isspace\<close> is the whitespace test shared by \<open>str.strip()\<close>, \<open>str.split()\<close> and
  the regular expression class \<open>\s\<close> on \<open>str\<close> patterns: the code points
  U+0009..U+000D, U+001C..U+0020, U+0085, U+00A0, U+1680, U+2000..U+200A, U+2028, U+2029,
  U+202F, U+205F and U+3000.
\<close>

definition isspace :: "codepoint \<Rightarrow> bool" where
  "isspace c \<longleftrightarrow>
     (9 \<le> c \<and> c \<le> 13) \<or> (28 \<le> c \<and> c \<le> 32) \<or> c = 133 \<or> c = 160 \<or> c = 5760 \<or>
     (8192 \<le> c \<and> c \<le> 8202) \<or> c = 8232 \<or> c = 8233 \<or> c = 8239 \<or> c = 8287 \<or> c = 12288"

text \<open>\<open>s.strip()\<close>: whitespace removed at both ends.\<close>

definition strip :: "pystr \<Rightarrow> pystr" where
  "strip s = rev (dropWhile isspace (rev (dropWhile isspace s)))"

text \<open>\<open>" ".join(xs)\<close>.\<close>

fun join_sp :: "pystr list \<Rightarrow> pystr" where
  "join_sp [] = []"
| "join_sp [s] = s"
| "join_sp (s # t # ss) = s @ 32 # join_sp (t # ss)"


section \<open>Exceptions and floats\<close>

text \<open>The exceptions the code can raise are values.\<close>

datatype error = IndexError | KeyError | ZeroDivisionError | OverflowError | ValueError

text \<open>
  A finite Python float is a double: a real number \<open>m * 2^e\<close> with \<open>\<bar>m\<bar> < 2^53\<close>,
  \<open>- 1074 \<le> e\<close> and a magnitude below \<open>2^1024\<close>. \<open>binade x\<close> is the exponent \<open>k\<close> with
  \<open>2^k \<le> \<bar>x\<bar> < 2^(k + 1)\<close>, for \<open>x \<noteq> 0\<close>. \<open>to_double x\<close> is the IEEE 754 rounding of
  the real number \<open>x\<close> to the nearest double, ties to the even significand, with subnormal
  numbers and without the bound on the magnitude: a result of magnitude \<open>2^1024\<close> or more
  stands for an overflow.
\<close>

definition binade :: "real \<Rightarrow> int" where
  "binade x =
     (let a = \<bar>x\<bar>
      in if 1 \<le> a then bitlen \<lfloor>a\<rfloor> - 1
         else (let j = bitlen \<lfloor>1 / a\<rfloor> - 1
               in if a = 2 powi (- j) then - j else - j - 1))"

definition round_half_even :: "real \<Rightarrow> int" where
  "round_half_even s =
     (let f = \<lfloor>s\<rfloor>; d = s - of_int f
      in if d < 1/2 then f else if 1/2 < d then f + 1 else if even f then f else f + 1)"

definition to_double :: "real \<Rightarrow> real" where
  "to_double x =
     (if x = 0 then 0
      else (let e = max (binade x - 52) (- 1074)
            in of_int (round_half_even (x / 2 powi e)) * 2 powi e))"

text \<open>Python's \<open>int(x)\<close> on a finite float: truncation towards zero.\<close>

definition py_int :: "real \<Rightarrow> int" where
  "py_int x = (if 0 \<le> x then \<lfloor>x\<rfloor> else \<lceil>x\<rceil>)"

text \<open>
  \<open>n * x\<close> for an \<open>int n\<close> and a float \<open>x\<close>: the integer is converted to a float, and the
  exact product of the two doubles is rounded. A float is given by the number written for
  it, which Python reads as the nearest double.
\<close>

definition float_product :: "int \<Rightarrow> real \<Rightarrow> real" where
  "float_product n x = to_double (to_double (of_int n) * to_double x)"

text \<open>
  \<open>int(chunk_size * self.overlap_ratio)\<close>. The conversion of an integer beyond the float
  range raises \<open>OverflowError\<close>; so does \<open>int\<close> of an infinite product, and \<open>int\<close> of
  the NaN that zero times an infinite ratio gives raises \<open>ValueError\<close>.
\<close>

definition overlap_budget :: "int \<Rightarrow> real \<Rightarrow> error + int" where
  "overlap_budget csize ratio =
     (if 2 ^ 1024 \<le> \<bar>to_double (of_int csize)\<bar> then Inl OverflowError
      else if 2 ^ 1024 \<le> \<bar>to_double ratio\<bar>
        then (if csize = 0 then Inl ValueError else Inl OverflowError)
      else if 2 ^ 1024 \<le> \<bar>float_product csize ratio\<bar> then Inl OverflowError
      else Inr (py_int (float_product csize ratio)))"

text \<open>
  A Python float in general: a finite double, given by its value, an infinity or a NaN.
  \<open>round_float x\<close> is the float that an arithmetic operation with the exact result \<open>x\<close>
  returns. The two zeros are one value: the code never tells them apart.
\<close>

datatype pyfloat = Finite real | PosInf | NegInf | NaN

definition round_float :: "real \<Rightarrow> pyfloat" where
  "round_float x =
     (let y = to_double x
      in if 2 ^ 1024 \<le> y then PosInf else if y \<le> - (2 ^ 1024) then NegInf else Finite y)"

text \<open>\<open>x - y\<close> on floats.\<close>

fun float_sub :: "pyfloat \<Rightarrow> pyfloat \<Rightarrow> pyfloat" where
  "float_sub (Finite a) (Finite b) = round_float (a - b)"
| "float_sub (Finite a) PosInf = NegInf"
| "float_sub (Finite a) NegInf = PosInf"
| "float_sub PosInf (Finite b) = PosInf"
| "float_sub PosInf NegInf = PosInf"
| "float_sub PosInf PosInf = NaN"
| "float_sub NegInf (Finite b) = NegInf"
| "float_sub NegInf PosInf = NegInf"
| "float_sub NegInf NegInf = NaN"
| "float_sub NaN y = NaN"
| "float_sub x NaN = NaN"

text \<open>\<open>x / y\<close> on floats: a zero divisor raises, whatever the dividend.\<close>

fun float_div :: "pyfloat \<Rightarrow> pyfloat \<Rightarrow> error + pyfloat" where
  "float_div x (Finite b) =
     (if b = 0 then Inl ZeroDivisionError
      else Inr (case x of
                  Finite a \<Rightarrow> round_float (a / b)
                | PosInf \<Rightarrow> if 0 < b then PosInf else NegInf
                | NegInf \<Rightarrow> if 0 < b then NegInf else PosInf
                | NaN \<Rightarrow> NaN))"
| "float_div (Finite a) PosInf = Inr (Finite 0)"
| "float_div (Finite a) NegInf = Inr (Finite 0)"
| "float_div x y = Inr NaN"

text \<open>\<open>x > 0\<close> on floats.\<close>

fun float_positive :: "pyfloat \<Rightarrow> bool" where
  "float_positive (Finite a) \<longleftrightarrow> 0 < a"
| "float_positive PosInf \<longleftrightarrow> True"
| "float_positive NegInf \<longleftrightarrow> False"
| "float_positive NaN \<longleftrightarrow> False"

text \<open>
  \<open>1.0 / n\<close> for an \<open>int n\<close>: the integer is converted to a float, which raises
  \<open>OverflowError\<close> beyond the float range; a zero raises \<open>ZeroDivisionError\<close>. The
  quotient is at most 1 in magnitude.
\<close>

definition reciprocal_of_int :: "int \<Rightarrow> error + real" where
  "reciprocal_of_int n =
     (let y = to_double (of_int n)
      in if 2 ^ 1024 \<le> \<bar>y\<bar> then Inl OverflowError
         else if y = 0 then Inl ZeroDivisionError
         else Inr (to_double (1 / y)))"

text \<open>
  A list comprehension or loop whose element expression may raise: the first exception ends
  it.
\<close>

fun collect :: "(error + 'a) list \<Rightarrow> error + 'a list" where
  "collect [] = Inr []"
| "collect (x # xs) =
     (case x of
        Inl e \<Rightarrow> Inl e
      | Inr v \<Rightarrow> (case collect xs of Inl e \<Rightarrow> Inl e | Inr vs \<Rightarrow> Inr (v # vs)))"


section \<open>Sentence splitting (\<open>chunker.py\<close>, \<open>_split_sentences\<close>)\<close>

text \<open>
  \<open>_SENTENCE_BOUNDARY = (?<=[.!?])(?:\s+)\<close>: a maximal run of whitespace that directly
  follows one of \<open>.\<close>, \<open>!\<close>, \<open>?\<close>. \<open>re_split_boundary piece rest\<close> is
  \<open>_SENTENCE_BOUNDARY.split\<close> on the text whose current piece so far is \<open>piece\<close> and
  whose unread part is \<open>rest\<close>.
\<close>

definition sentence_end :: "codepoint \<Rightarrow> bool" where
  "sentence_end c \<longleftrightarrow> c = 46 \<or> c = 33 \<or> c = 63"

function re_split_boundary :: "pystr \<Rightarrow> pystr \<Rightarrow> pystr list" where
  "re_split_boundary piece [] = [piece]"
| "re_split_boundary piece (c # cs) =
     (if sentence_end c \<and> cs \<noteq> [] \<and> isspace (hd cs)
      then (piece @ [c]) # re_split_boundary [] (dropWhile isspace cs)
      else re_split_boundary (piece @ [c]) cs)"
  by pat_completeness auto
termination
  by (relation "measure (\<lambda>(piece, rest). length rest)")
     (auto simp: less_Suc_eq_le length_dropWhile_le)

definition split_sentences :: "pystr \<Rightarrow> pystr list" where
  "split_sentences text_in =
     filter (\<lambda>s. s \<noteq> []) (map strip (re_split_boundary [] text_in))"


section \<open>Chunk assembly (\<open>SectionChunker.chunk_section\<close>)\<close>

text \<open>The chunker object: its two constructor parameters.\<close>

record SectionChunker =
  chunk_size :: int
  overlap_ratio :: real

text \<open>A chunk dict \<open>{"text", "section", "source", "chunk_id"}\<close>.\<close>

record chunk =
  chunk_text :: pystr
  chunk_section_name :: pystr
  chunk_source :: pystr
  chunk_id :: int

text \<open>
  The backward walk that computes the overlap seed: the \<open>for s in reversed(current_sentences)\<close>
  loop, with the sentences still to visit, \<open>overlap_sentences\<close> and \<open>overlap_len\<close>.
\<close>

fun overlap_walk :: "int \<Rightarrow> pystr list \<Rightarrow> pystr list \<Rightarrow> int \<Rightarrow> pystr list" where
  "overlap_walk overlap_chars [] overlap_sentences overlap_len = overlap_sentences"
| "overlap_walk overlap_chars (s # rs) overlap_sentences overlap_len =
     (if overlap_len + int (length s) + (if overlap_sentences \<noteq> [] then 1 else 0) > overlap_chars
      then overlap_sentences
      else overlap_walk overlap_chars rs (s # overlap_sentences)
             (overlap_len + int (length s) + (if length (s # overlap_sentences) > 1 then 1 else 0)))"

text \<open>\<open>sum(len(s) for s in xs) + max(0, len(xs) - 1)\<close>: the length of the joined text.\<close>

definition joined_len :: "pystr list \<Rightarrow> int" where
  "joined_len xs = sum_list (map (\<lambda>s. int (length s)) xs) + max 0 (int (length xs) - 1)"

definition mk_chunk :: "pystr list \<Rightarrow> pystr \<Rightarrow> pystr \<Rightarrow> int \<Rightarrow> chunk" where
  "mk_chunk current_sentences section_name source cid =
     \<lparr>chunk_text = join_sp current_sentences, chunk_section_name = section_name,
      chunk_source = source, chunk_id = cid\<rparr>"

text \<open>
  The \<open>while i < len(sentences)\<close> loop. It need not terminate, so it is a partial function:
  \<open>None\<close> is a run that never leaves the loop. The result is the state at the exit:
  \<open>chunks\<close>, \<open>chunk_id\<close> and \<open>current_sentences\<close>.
\<close>

partial_function (option) chunk_loop ::
  "int \<Rightarrow> int \<Rightarrow> pystr \<Rightarrow> pystr \<Rightarrow> pystr list \<Rightarrow>
   nat \<Rightarrow> pystr list \<Rightarrow> int \<Rightarrow> chunk list \<Rightarrow> int \<Rightarrow> (chunk list \<times> int \<times> pystr list) option"
where
  "chunk_loop csize overlap_chars section_name source sentences
              i current_sentences current_len chunks cid =
     (if i < length sentences then
        (let sentence = sentences ! i;
             projected = current_len + int (length sentence)
                         + (if current_sentences \<noteq> [] then 1 else 0)
         in if projected \<le> csize \<or> current_sentences = [] then
              chunk_loop csize overlap_chars section_name source sentences
                (i + 1) (current_sentences @ [sentence]) projected chunks cid
            else
              (let overlap_sentences = overlap_walk overlap_chars (rev current_sentences) [] 0
               in chunk_loop csize overlap_chars section_name source sentences
                    i overlap_sentences (joined_len overlap_sentences)
                    (chunks @ [mk_chunk current_sentences section_name source cid])
                    (cid + 1)))
      else Some (chunks, cid, current_sentences))"

declare chunk_loop.simps [code]

text \<open>
  \<open>chunk_section\<close>: \<open>None\<close> when the loop never ends, \<open>Some (Inl e)\<close> when the call raises
  \<open>e\<close>, \<open>Some (Inr chunks)\<close> when it returns \<open>chunks\<close>.
\<close>

definition chunk_section ::
  "SectionChunker \<Rightarrow> pystr \<Rightarrow> pystr \<Rightarrow> pystr \<Rightarrow> int \<Rightarrow> int option \<Rightarrow>
   (error + chunk list) option" where
  "chunk_section self section_text section_name source start_id effective_chunk_size =
     (let csize = (case effective_chunk_size of Some e \<Rightarrow> e | None \<Rightarrow> chunk_size self);
          sentences = split_sentences section_text
      in if sentences = [] then Some (Inr [])
         else
           (case overlap_budget csize (overlap_ratio self) of
              Inl e \<Rightarrow> Some (Inl e)
            | Inr overlap_chars \<Rightarrow>
                (case chunk_loop csize overlap_chars section_name source sentences 0 [] 0 []
                        start_id of
                   None \<Rightarrow> None
                 | Some (chunks, cid, current_sentences) \<Rightarrow>
                     Some (Inr (if current_sentences \<noteq> []
                                then chunks @ [mk_chunk current_sentences section_name source cid]
                                else chunks)))))"


section \<open>Header patterns (\<open>chunker.py\<close>, \<open>_SECTION_PATTERNS\<close>)\<close>

text \<open>
  The fragment of Python's regular expressions that the header patterns use, with the flags
  \<open>IGNORECASE | MULTILINE\<close> built in: \<open>Bol\<close> is \<open>^\<close> (start of the text or just after
  a newline), \<open>Eol\<close> is \<open>$\<close> (end of the text or just before a newline), \<open>Cls\<close> one
  character of a class, \<open>Star\<close> a greedy repetition of a class, \<open>Alt\<close> ordered
  alternation and \<open>Opt\<close> a greedy optional group.
\<close>

datatype regex =
    Eps
  | Bol
  | Eol
  | Cls "codepoint \<Rightarrow> bool"
  | Star "codepoint \<Rightarrow> bool"
  | Seq regex regex
  | Alt regex regex
  | Opt regex

text \<open>
  Backtracking in the order of the \<open>re\<close> module: \<open>rmatch r t p k\<close> matches \<open>r\<close> in \<open>t\<close>
  from position \<open>p\<close> and hands every end position, in order of preference, to the
  continuation \<open>k\<close> until it succeeds. \<open>try_back k p n\<close> offers \<open>p + n\<close>, then the shorter
  repetitions down to \<open>p\<close>.
\<close>

fun try_back :: "(nat \<Rightarrow> nat option) \<Rightarrow> nat \<Rightarrow> nat \<Rightarrow> nat option" where
  "try_back k p 0 = k p"
| "try_back k p (Suc n) =
     (case k (p + Suc n) of Some e \<Rightarrow> Some e | None \<Rightarrow> try_back k p n)"

fun rmatch :: "regex \<Rightarrow> pystr \<Rightarrow> nat \<Rightarrow> (nat \<Rightarrow> nat option) \<Rightarrow> nat option" where
  "rmatch Eps t p k = k p"
| "rmatch Bol t p k = (if p = 0 \<or> (p \<le> length t \<and> t ! (p - 1) = 10) then k p else None)"
| "rmatch Eol t p k = (if p = length t \<or> (p < length t \<and> t ! p = 10) then k p else None)"
| "rmatch (Cls C) t p k = (if p < length t \<and> C (t ! p) then k (p + 1) else None)"
| "rmatch (Star C) t p k = try_back k p (length (takeWhile C (drop p t)))"
| "rmatch (Seq a b) t p k = rmatch a t p (\<lambda>q. rmatch b t q k)"
| "rmatch (Alt a b) t p k =
     (case rmatch a t p k of Some e \<Rightarrow> Some e | None \<Rightarrow> rmatch b t p k)"
| "rmatch (Opt a) t p k =
     (case rmatch a t p k of Some e \<Rightarrow> Some e | None \<Rightarrow> k p)"

text \<open>
  \<open>pattern.finditer(text)\<close> from position \<open>p\<close>: the leftmost match, then the search goes on
  at its end. Every header pattern contains a word, so no match is empty; after an empty
  match the scan moves one character on.
\<close>

function finditer :: "regex \<Rightarrow> pystr \<Rightarrow> nat \<Rightarrow> (nat \<times> nat) list" where
  "finditer r t p =
     (if length t < p then []
      else case rmatch r t p Some of
             None \<Rightarrow> finditer r t (p + 1)
           | Some e \<Rightarrow> (p, e) # finditer r t (if p < e then e else p + 1))"
  by pat_completeness auto
termination
  by (relation "measure (\<lambda>(r, t, p). length t + 1 - p)") auto

declare finditer.simps [simp del]

text \<open>
  A letter of a pattern, given in lower case, under \<open>IGNORECASE\<close>: the letter, its capital
  and the code points that Unicode case folding adds (U+0130 and U+0131 for \<open>i\<close>, U+017F
  for \<open>s\<close>, U+212A for \<open>k\<close>).
\<close>

definition ci :: "codepoint \<Rightarrow> codepoint \<Rightarrow> bool" where
  "ci l c \<longleftrightarrow> c = l \<or> c = l - 32 \<or> (l = 105 \<and> (c = 304 \<or> c = 305)) \<or>
     (l = 115 \<and> c = 383) \<or> (l = 107 \<and> c = 8490)"

definition word :: "string \<Rightarrow> regex" where
  "word w = foldr (\<lambda>ch r. Seq (Cls (ci (of_char ch))) r) w Eps"

definition plus :: "(codepoint \<Rightarrow> bool) \<Rightarrow> regex" where
  "plus C = Seq (Cls C) (Star C)"

definition digit :: "codepoint \<Rightarrow> bool" where
  "digit c \<longleftrightarrow> 48 \<le> c \<and> c \<le> 57"

definition dot_or_space :: "codepoint \<Rightarrow> bool" where
  "dot_or_space c \<longleftrightarrow> c = 46 \<or> isspace c"

definition roman :: "codepoint \<Rightarrow> bool" where
  "roman c \<longleftrightarrow> ci 105 c \<or> ci 118 c \<or> ci 120 c"

text \<open>\<open>(?:[0-9]+[.\s]*|[IVX]+[.\s]+)?\<close>\<close>

definition numbering :: regex where
  "numbering = Opt (Alt (Seq (plus digit) (Star dot_or_space)) (Seq (plus roman) (plus dot_or_space)))"

text \<open>\<open>^[\s]*(?:[0-9]+[.\s]*|[IVX]+[.\s]+)?\<close> \<open>body\<close> \<open>[\s]*$\<close>\<close>

definition numbered_header :: "regex \<Rightarrow> regex" where
  "numbered_header body =
     Seq Bol (Seq (Star isspace) (Seq numbering (Seq body (Seq (Star isspace) Eol))))"

definition SECTION_PATTERNS :: "(regex \<times> pystr) list" where
  "SECTION_PATTERNS =
    [(Seq Bol (Seq (Star isspace) (Seq (word ''abstract'') (Seq (Star isspace) Eol))),
        str ''Abstract''),
     (numbered_header (word ''introduction''), str ''Introduction''),
     (numbered_header (word ''background''), str ''Background''),
     (numbered_header (Seq (word ''related'') (Seq (plus isspace) (word ''work''))),
        str ''Related Work''),
     (numbered_header (Alt (Seq (word ''method'') (Opt (word ''s''))) (word ''methodology'')),
        str ''Methods''),
     (numbered_header
        (Seq (word ''results'')
           (Opt (Seq (plus isspace) (Seq (word ''and'') (Seq (plus isspace) (word ''discussion'')))))),
        str ''Results''),
     (numbered_header (word ''discussion''), str ''Discussion''),
     (numbered_header (Seq (word ''conclusion'') (Opt (word ''s''))), str ''Conclusion''),
     (numbered_header (Seq (word ''limitation'') (Opt (word ''s''))), str ''Limitations''),
     (numbered_header (Alt (word ''references'') (word ''bibliography'')), str ''References'')]"


section \<open>Section detection (\<open>SectionChunker.detect_sections\<close>)\<close>

text \<open>A section dict \<open>{"section": name, "text": content}\<close>.\<close>

record sect =
  sect_name :: pystr
  sect_text :: pystr

text \<open>The matches of every pattern, in the order of the pattern table: \<open>(start, end, name)\<close>.\<close>

definition header_matches :: "pystr \<Rightarrow> (nat \<times> nat \<times> pystr) list" where
  "header_matches text_in =
     concat (map (\<lambda>(pattern, section_name).
                    map (\<lambda>(m_start, m_end). (m_start, m_end, section_name))
                        (finditer pattern text_in 0))
                 SECTION_PATTERNS)"

text \<open>\<open>text[a:b]\<close> for \<open>0 \<le> a\<close> and \<open>0 \<le> b\<close>; empty when \<open>b \<le> a\<close>.\<close>

definition py_slice :: "nat \<Rightarrow> nat \<Rightarrow> 'a list \<Rightarrow> 'a list" where
  "py_slice a b xs = take (b - a) (drop a xs)"

text \<open>The \<open>for idx, (start, end, name) in enumerate(matches)\<close> loop.\<close>

fun section_bodies :: "pystr \<Rightarrow> (nat \<times> nat \<times> pystr) list \<Rightarrow> sect list" where
  "section_bodies text_in [] = []"
| "section_bodies text_in ((m_start, m_end, name) # rest) =
     (let content = strip (case rest of
                             [] \<Rightarrow> drop m_end text_in
                           | (next_start, next_end, next_name) # later \<Rightarrow>
                               py_slice m_end next_start text_in)
      in (if content \<noteq> [] then [\<lparr>sect_name = name, sect_text = content\<rparr>] else [])
         @ section_bodies text_in rest)"

definition detect_sections :: "pystr \<Rightarrow> sect list" where
  "detect_sections text_in =
     (let matches = header_matches text_in
      in if matches = [] then [\<lparr>sect_name = str ''Full Text'', sect_text = text_in\<rparr>]
         else
           (let matches = sort_key fst matches;
                pre_text = strip (take (fst (matches ! 0)) text_in)
            in (if pre_text \<noteq> [] then [\<lparr>sect_name = str ''Preamble'', sect_text = pre_text\<rparr>]
                else [])
               @ section_bodies text_in matches))"


section \<open>Chunking a paper (\<open>SectionChunker.chunk_paper\<close>)\<close>

definition SECTION_CHUNK_SIZES :: "(pystr \<times> int) list" where
  "SECTION_CHUNK_SIZES =
     [(str ''Abstract'', 2000), (str ''Methods'', 1000), (str ''Methodology'', 1000),
      (str ''Results'', 800)]"

definition DEFAULT_CHUNK_SIZE :: int where
  "DEFAULT_CHUNK_SIZE = 500"

text \<open>\<open>self.SECTION_CHUNK_SIZES.get(section_name, self.chunk_size)\<close>\<close>

definition effective_size :: "SectionChunker \<Rightarrow> pystr \<Rightarrow> int" where
  "effective_size self section_name =
     (case map_of SECTION_CHUNK_SIZES section_name of
        Some size_override \<Rightarrow> size_override
      | None \<Rightarrow> chunk_size self)"

text \<open>
  The \<open>for section in sections\<close> loop with \<open>all_chunks\<close> and \<open>running_id\<close>; it does not
  return when a call of \<open>chunk_section\<close> does not return, and raises what such a call raises.
\<close>

fun chunk_paper_loop ::
  "SectionChunker \<Rightarrow> pystr \<Rightarrow> sect list \<Rightarrow> chunk list \<Rightarrow> int \<Rightarrow>
   (error + chunk list) option" where
  "chunk_paper_loop self source [] all_chunks running_id = Some (Inr all_chunks)"
| "chunk_paper_loop self source (section_d # rest) all_chunks running_id =
     (let section_name = sect_name section_d
      in case chunk_section self (sect_text section_d) section_name source running_id
                (Some (effective_size self section_name)) of
           None \<Rightarrow> None
         | Some (Inl e) \<Rightarrow> Some (Inl e)
         | Some (Inr new_chunks) \<Rightarrow>
             chunk_paper_loop self source rest (all_chunks @ new_chunks)
               (running_id + int (length new_chunks)))"

definition chunk_paper ::
  "SectionChunker \<Rightarrow> pystr \<Rightarrow> pystr \<Rightarrow> (error + chunk list) option" where
  "chunk_paper self text_in source = chunk_paper_loop self source (detect_sections text_in) [] 0"


section \<open>The retriever (\<open>retriever.py\<close>, \<open>HybridRetriever\<close>)\<close>

text \<open>
  The floats that the collaborators return (BM25 scores, distances, cross-encoder scores)
  are finite doubles, given by their values; so is the \<open>score\<close> of a candidate.
\<close>

text \<open>
  A candidate dict. Both searches build it with the keys \<open>text\<close>, \<open>source\<close>, \<open>score\<close>
  and \<open>id\<close>; \<open>r_section\<close> is the key \<open>section\<close>, which \<open>search\<close> reads with
  \<open>result.get("section", "")\<close> and which a dict may lack.
\<close>

record ranked_result =
  r_text :: pystr
  r_source :: pystr
  score :: real
  r_id :: pystr
  r_section :: "pystr option"

text \<open>An output dict of \<open>search\<close>.\<close>

record final_result =
  out_text :: pystr
  out_source :: pystr
  distance :: pyfloat
  out_section :: pystr
  retrieval_method :: pystr

text \<open>What \<open>collection.query\<close> returns: each key may be absent.\<close>

record query_result =
  q_documents :: "pystr list list option"
  q_metadatas :: "(string \<rightharpoonup> pystr) list list option"
  q_distances :: "real list list option"
  q_ids :: "pystr list list option"

text \<open>
  The retriever object. The collaborators are functions: \<open>bm25_index\<close>, when built, gives
  \<open>self.bm25_index.get_scores(query.lower().split())\<close> for a query;
  \<open>collection_query query n\<close> is \<open>self.collection.query\<close> on the embedding of the query
  for \<open>n\<close> results; \<open>cross_encoder_predict\<close> is \<open>self.cross_encoder.predict\<close>.
\<close>

record HybridRetriever =
  bm25_index :: "(pystr \<Rightarrow> real list) option"
  bm25_docs :: "pystr list"
  bm25_metadatas :: "(string \<rightharpoonup> pystr) list"
  bm25_ids :: "pystr list"
  collection_query :: "pystr \<Rightarrow> int \<Rightarrow> query_result"
  cross_encoder_predict :: "(pystr \<times> pystr) list \<Rightarrow> real list"

text \<open>\<open>xs[:n]\<close> for any integer \<open>n\<close>.\<close>

definition py_prefix :: "int \<Rightarrow> 'a list \<Rightarrow> 'a list" where
  "py_prefix n xs = (if 0 \<le> n then take (nat n) xs else take (length xs - nat (- n)) xs)"

text \<open>\<open>sorted(xs, key=f, reverse=True)\<close>: descending and stable.\<close>

definition sorted_desc :: "('a \<Rightarrow> real) \<Rightarrow> 'a list \<Rightarrow> 'a list" where
  "sorted_desc f xs = sort_key (\<lambda>x. - f x) xs"

text \<open>\<open>metadata.get("source", "unknown")\<close>\<close>

definition source_of :: "(string \<rightharpoonup> pystr) \<Rightarrow> pystr" where
  "source_of metadata = (case metadata ''source'' of Some s \<Rightarrow> s | None \<Rightarrow> str ''unknown'')"

text \<open>The \<open>for idx in scored_indices\<close> loop of \<open>bm25_search\<close>.\<close>

fun bm25_collect ::
  "HybridRetriever \<Rightarrow> real list \<Rightarrow> nat list \<Rightarrow> error + ranked_result list" where
  "bm25_collect self scores [] = Inr []"
| "bm25_collect self scores (idx # rest) =
     (if scores ! idx \<le> 0 then bm25_collect self scores rest
      else if length (bm25_docs self) \<le> idx then Inl IndexError
      else
        (let metadata = (if idx < length (bm25_metadatas self) then bm25_metadatas self ! idx
                         else Map.empty);
             entry = \<lparr>r_text = bm25_docs self ! idx, r_source = source_of metadata,
                      score = scores ! idx,
                      r_id = (if idx < length (bm25_ids self) then bm25_ids self ! idx else []),
                      r_section = None\<rparr>
         in case bm25_collect self scores rest of
              Inl e \<Rightarrow> Inl e
            | Inr results \<Rightarrow> Inr (entry # results)))"

definition bm25_search :: "HybridRetriever \<Rightarrow> pystr \<Rightarrow> int \<Rightarrow> error + ranked_result list" where
  "bm25_search self query n_results =
     (case bm25_index self of
        None \<Rightarrow> Inr []
      | Some get_scores \<Rightarrow>
          if bm25_docs self = [] then Inr []
          else
            (let scores = get_scores query;
                 scored_indices =
                   py_prefix n_results (sorted_desc (\<lambda>i. scores ! i) [0..<length scores])
             in bm25_collect self scores scored_indices))"

text \<open>\<open>raw.get(key, [[]])[0]\<close>\<close>

definition first_row :: "'a list list option \<Rightarrow> error + 'a list" where
  "first_row v = (case v of None \<Rightarrow> Inr [] | Some [] \<Rightarrow> Inl IndexError | Some (row # rows) \<Rightarrow> Inr row)"

text \<open>
  \<open>1.0 / (1.0 + d)\<close> for a distance \<open>d\<close>. The sum of 1 and a double is zero or at least
  \<open>2^-53\<close> in magnitude, so the quotient is finite; an infinite sum gives the quotient 0.
\<close>

definition distance_score :: "real \<Rightarrow> error + real" where
  "distance_score d =
     (let y = to_double (1 + d)
      in if y = 0 then Inl ZeroDivisionError
         else if 2 ^ 1024 \<le> \<bar>y\<bar> then Inr 0
         else Inr (to_double (1 / y)))"

text \<open>The \<open>for i, doc in enumerate(documents)\<close> loop of \<open>vector_search\<close>, from index \<open>i\<close>.\<close>

fun vector_collect ::
  "(string \<rightharpoonup> pystr) list \<Rightarrow> real list \<Rightarrow> pystr list \<Rightarrow> nat \<Rightarrow> pystr list \<Rightarrow>
   error + ranked_result list" where
  "vector_collect metadatas distances ids i [] = Inr []"
| "vector_collect metadatas distances ids i (doc # rest) =
     (case (if i < length distances then distance_score (distances ! i) else Inr 0) of
        Inl e \<Rightarrow> Inl e
      | Inr s \<Rightarrow>
          (let entry = \<lparr>r_text = doc,
                        r_source = (if i < length metadatas then source_of (metadatas ! i)
                                    else str ''unknown''),
                        score = s,
                        r_id = (if i < length ids then ids ! i else []),
                        r_section = None\<rparr>
           in case vector_collect metadatas distances ids (i + 1) rest of
                Inl e \<Rightarrow> Inl e
              | Inr results \<Rightarrow> Inr (entry # results)))"

definition vector_search :: "HybridRetriever \<Rightarrow> pystr \<Rightarrow> int \<Rightarrow> error + ranked_result list" where
  "vector_search self query n_results =
     (let raw = collection_query self query n_results
      in case first_row (q_documents raw) of Inl e \<Rightarrow> Inl e | Inr documents \<Rightarrow>
         case first_row (q_metadatas raw) of Inl e \<Rightarrow> Inl e | Inr metadatas \<Rightarrow>
         case first_row (q_distances raw) of Inl e \<Rightarrow> Inl e | Inr distances \<Rightarrow>
         case first_row (q_ids raw) of Inl e \<Rightarrow> Inl e | Inr ids \<Rightarrow>
           vector_collect metadatas distances ids 0 documents)"

text \<open>\<open>result.get("id") or result.get("text", "")[:100]\<close>\<close>

definition doc_key :: "ranked_result \<Rightarrow> pystr" where
  "doc_key result = (if r_id result \<noteq> [] then r_id result else take 100 (r_text result))"

text \<open>
  The two dicts of \<open>reciprocal_rank_fusion\<close> keep their keys in insertion order, so they are
  association lists: \<open>AList.update\<close> overwrites a key in place and appends a new one.
  \<open>rrf_list\<close> is the inner loop \<open>for rank, result in enumerate(results, start=1)\<close>, from
  \<open>rank\<close>; \<open>rrf_lists\<close> is the outer loop. Each term is at most 1 in magnitude, so a
  fused score stays finite: a sum overflows only after more than \<open>2^1023\<close> terms.
\<close>

fun rrf_list ::
  "int \<Rightarrow> nat \<Rightarrow> ranked_result list \<Rightarrow>
   (pystr \<times> real) list \<times> (pystr \<times> ranked_result) list \<Rightarrow>
   error + (pystr \<times> real) list \<times> (pystr \<times> ranked_result) list" where
  "rrf_list k rank [] (fused_scores, doc_map) = Inr (fused_scores, doc_map)"
| "rrf_list k rank (result # rest) (fused_scores, doc_map) =
     (case reciprocal_of_int (k + int rank) of
        Inl e \<Rightarrow> Inl e
      | Inr term \<Rightarrow>
          (let doc_id = doc_key result;
               fused_scores' =
                 AList.update doc_id
                   (to_double ((case map_of fused_scores doc_id of Some v \<Rightarrow> v | None \<Rightarrow> 0)
                               + term))
                   fused_scores;
               doc_map' = (if map_of doc_map doc_id = None then AList.update doc_id result doc_map
                           else doc_map)
           in rrf_list k (rank + 1) rest (fused_scores', doc_map')))"

fun rrf_lists ::
  "int \<Rightarrow> ranked_result list list \<Rightarrow>
   (pystr \<times> real) list \<times> (pystr \<times> ranked_result) list \<Rightarrow>
   error + (pystr \<times> real) list \<times> (pystr \<times> ranked_result) list" where
  "rrf_lists k [] dicts = Inr dicts"
| "rrf_lists k (results # rest) dicts =
     (case rrf_list k 1 results dicts of Inl e \<Rightarrow> Inl e | Inr dicts' \<Rightarrow> rrf_lists k rest dicts')"

text \<open>The \<open>for doc_id in sorted_ids\<close> loop: \<open>doc_map[doc_id].copy()\<close> with the fused score.\<close>

fun rrf_merge ::
  "(pystr \<times> real) list \<Rightarrow> (pystr \<times> ranked_result) list \<Rightarrow> pystr list \<Rightarrow>
   error + ranked_result list" where
  "rrf_merge fused_scores doc_map [] = Inr []"
| "rrf_merge fused_scores doc_map (doc_id # rest) =
     (case (map_of doc_map doc_id, map_of fused_scores doc_id) of
        (Some result, Some fused) \<Rightarrow>
          (case rrf_merge fused_scores doc_map rest of
             Inl e \<Rightarrow> Inl e
           | Inr merged \<Rightarrow> Inr (result\<lparr>score := fused\<rparr> # merged))
      | _ \<Rightarrow> Inl KeyError)"

definition reciprocal_rank_fusion ::
  "ranked_result list list \<Rightarrow> int \<Rightarrow> error + ranked_result list" where
  "reciprocal_rank_fusion results_list k =
     (case rrf_lists k results_list ([], []) of
        Inl e \<Rightarrow> Inl e
      | Inr (fused_scores, doc_map) \<Rightarrow>
          (let sorted_ids = map fst (sorted_desc snd fused_scores)
           in rrf_merge fused_scores doc_map sorted_ids))"

definition rerank ::
  "HybridRetriever \<Rightarrow> pystr \<Rightarrow> ranked_result list \<Rightarrow> int \<Rightarrow> error + ranked_result list" where
  "rerank self query candidates top_k =
     (if candidates = [] then Inr []
      else
        (let pairs = map (\<lambda>c. (query, r_text c)) candidates;
             ce_scores = cross_encoder_predict self pairs
         in if length ce_scores < length candidates then Inl IndexError
            else
              (let candidates' =
                     map (\<lambda>i. (candidates ! i)\<lparr>score := ce_scores ! i\<rparr>) [0..<length candidates];
                   reranked = sorted_desc score candidates'
               in Inr (py_prefix top_k reranked))))"

text \<open>The normalisation step of \<open>search\<close>.\<close>

definition normalize_scores :: "ranked_result list \<Rightarrow> error + pyfloat list" where
  "normalize_scores reranked =
     (if reranked \<noteq> [] then
        (let raw_scores = map score reranked;
             min_score = Min (set raw_scores);
             max_score = Max (set raw_scores);
             score_range = float_sub (Finite max_score) (Finite min_score)
         in if float_positive score_range
            then collect (map (\<lambda>s. float_div (float_sub (Finite s) (Finite min_score)) score_range)
                            raw_scores)
            else Inr (replicate (length raw_scores) (Finite 1)))
      else Inr [])"

text \<open>The output loop of \<open>search\<close>.\<close>

definition build_output ::
  "ranked_result list \<Rightarrow> pyfloat list \<Rightarrow> pystr \<Rightarrow> error + final_result list" where
  "build_output reranked normalized method =
     collect
       (map (\<lambda>i. let result = reranked ! i
                 in if length normalized \<le> i then Inl IndexError
                    else Inr \<lparr>out_text = r_text result, out_source = r_source result,
                              distance = float_sub (Finite 1) (normalized ! i),
                              out_section = (case r_section result of Some s \<Rightarrow> s | None \<Rightarrow> []),
                              retrieval_method = method\<rparr>)
            [0..<length reranked])"

definition search :: "HybridRetriever \<Rightarrow> pystr \<Rightarrow> int \<Rightarrow> error + final_result list" where
  "search self query n_results =
     (case bm25_search self query 20 of Inl e \<Rightarrow> Inl e | Inr bm25_results \<Rightarrow>
      case vector_search self query 20 of Inl e \<Rightarrow> Inl e | Inr vector_results \<Rightarrow>
      case (if bm25_results \<noteq> []
            then (case reciprocal_rank_fusion [bm25_results, vector_results] 60 of
                    Inl e \<Rightarrow> Inl e
                  | Inr fused \<Rightarrow> Inr (fused, str ''hybrid''))
            else Inr (vector_results, str ''vector_only'')) of
        Inl e \<Rightarrow> Inl e
      | Inr (fused, method) \<Rightarrow>
          (case rerank self query fused n_results of
             Inl e \<Rightarrow> Inl e
           | Inr reranked \<Rightarrow>
               (case normalize_scores reranked of
                  Inl e \<Rightarrow> Inl e
                | Inr normalized \<Rightarrow> build_output reranked normalized method)))"


section \<open>Notions used to state the properties\<close>

text \<open>
  A loop state that can never be left: the pending sentences are exactly the overlap seed they
  produce, and the next sentence does not fit behind them.
\<close>

definition stalled :: "int \<Rightarrow> int \<Rightarrow> pystr list \<Rightarrow> nat \<Rightarrow> pystr list \<Rightarrow> int \<Rightarrow> bool" where
  "stalled csize overlap_chars sentences i current_sentences current_len \<longleftrightarrow>
     i < length sentences \<and> current_sentences \<noteq> [] \<and>
     current_len = joined_len current_sentences \<and>
     csize < current_len + int (length (sentences ! i)) + 1 \<and>
     overlap_walk overlap_chars (rev current_sentences) [] 0 = current_sentences"

text \<open>
  What two consecutive chunks of one section share, on their sentence lists \<open>g\<close> and \<open>g'\<close>:
  \<open>g\<close> ends with a seed whose joined length is within the budget, a real number (and the
  seed cannot be extended by the sentence before it without leaving the budget), \<open>g\<close> ends just before sentence \<open>k\<close> of
  the section, that sentence did not fit behind \<open>g\<close>, and \<open>g'\<close> starts with the seed
  followed by that sentence.
\<close>

definition overlap_link :: "int \<Rightarrow> real \<Rightarrow> pystr list \<Rightarrow> pystr list \<Rightarrow> pystr list \<Rightarrow> bool" where
  "overlap_link csize budget sentences g g' \<longleftrightarrow>
     (\<exists>pre seed k rest.
        g = pre @ seed \<and>
        (seed \<noteq> [] \<longrightarrow> of_int (joined_len seed) \<le> budget) \<and>
        (pre \<noteq> [] \<longrightarrow> budget < of_int (joined_len (last pre # seed))) \<and>
        k < length sentences \<and> (\<exists>before. take k sentences = before @ g) \<and>
        csize < joined_len (g @ [sentences ! k]) \<and>
        g' = seed @ sentences ! k # rest)"

text \<open>
  The budgets as the amended specification gives them: the fixed budget of the override table
  for the four names of the table, the configured budget for every other name; and the
  chunking of a list of sections in order, each with its budget, the identifiers running on
  from one section to the next.
\<close>

definition spec_budget :: "SectionChunker \<Rightarrow> pystr \<Rightarrow> int" where
  "spec_budget self name =
     (if name = str ''Abstract'' then 2000
      else if name = str ''Methods'' then 1000
      else if name = str ''Methodology'' then 1000
      else if name = str ''Results'' then 800
      else chunk_size self)"

fun spec_chunk_sections ::
  "SectionChunker \<Rightarrow> pystr \<Rightarrow> sect list \<Rightarrow> int \<Rightarrow> (error + chunk list) option" where
  "spec_chunk_sections self source [] first_id = Some (Inr [])"
| "spec_chunk_sections self source (s # rest) first_id =
     (case chunk_section self (sect_text s) (sect_name s) source first_id
             (Some (spec_budget self (sect_name s))) of
        None \<Rightarrow> None
      | Some (Inl e) \<Rightarrow> Some (Inl e)
      | Some (Inr cs) \<Rightarrow>
          (case spec_chunk_sections self source rest (first_id + int (length cs)) of
             None \<Rightarrow> None
           | Some (Inl e) \<Rightarrow> Some (Inl e)
           | Some (Inr later) \<Rightarrow> Some (Inr (cs @ later))))"

text \<open>
  The fused score of the document key \<open>d\<close> as the specification gives it: the sum, over the
  lists in order and over every position of a list that holds \<open>d\<close>, of \<open>1 / (k + rank)\<close>,
  where the rank of a position is its index counted from 1. The terms and the sum are floats:
  \<open>rrf_terms\<close> lists the terms of one list from \<open>rank\<close> on, \<open>float_sum\<close> adds terms
  from left to right, starting from \<open>0.0\<close>.
\<close>

fun rrf_terms :: "int \<Rightarrow> nat \<Rightarrow> ranked_result list \<Rightarrow> pystr \<Rightarrow> real list" where
  "rrf_terms k rank [] d = []"
| "rrf_terms k rank (result # rest) d =
     (if doc_key result = d
      then [to_double (1 / to_double (of_int (k + int rank)))] else [])
     @ rrf_terms k (rank + 1) rest d"

definition float_sum :: "real list \<Rightarrow> real" where
  "float_sum terms = foldl (\<lambda>acc t. to_double (acc + t)) 0 terms"

definition rrf_score :: "int \<Rightarrow> ranked_result list list \<Rightarrow> pystr \<Rightarrow> real" where
  "rrf_score k results_list d =
     float_sum (concat (map (\<lambda>results. rrf_terms k 1 results d) results_list))"

text \<open>
  Every \<open>k + rank\<close> of the list is an integer that converts to a float: the ranks stay
  below \<open>2^1023\<close>.
\<close>

definition rank_range :: "int \<Rightarrow> ranked_result list \<Rightarrow> bool" where
  "rank_range k results \<longleftrightarrow> k + int (length results) \<le> 2 ^ 1023"

text \<open>The key \<open>d\<close> is at rank 1 of \<open>results\<close> and nowhere else in \<open>results\<close> or \<open>others\<close>.\<close>

definition rank1_only :: "pystr \<Rightarrow> ranked_result list \<Rightarrow> ranked_result list \<Rightarrow> bool" where
  "rank1_only d results others \<longleftrightarrow>
     results \<noteq> [] \<and> doc_key (hd results) = d \<and>
     d \<notin> doc_key ` set (tl results) \<and> d \<notin> doc_key ` set others"


section \<open>The overlap budget\<close>

text \<open>The same function, with the float product computed once, for evaluation.\<close>

lemma overlap_budget_code [code]:
  "overlap_budget csize ratio =
     (if (2 ^ 32) ^ 32 \<le> \<bar>to_double (of_int csize)\<bar> then Inl OverflowError
      else if (2 ^ 32) ^ 32 \<le> \<bar>to_double ratio\<bar>
        then (if csize = 0 then Inl ValueError else Inl OverflowError)
      else (let p = float_product csize ratio
            in if (2 ^ 32) ^ 32 \<le> \<bar>p\<bar> then Inl OverflowError else Inr (py_int p)))"
proof -
  have "((2::real) ^ 32) ^ 32 = 2 ^ 1024" by (simp flip: power_mult)
  then show ?thesis by (simp add: overlap_budget_def Let_def)
qed

text \<open>
  The budget is the integer part of the rounded product, not of the exact one:
  \<open>int(50 * 0.58)\<close> is 28 and \<open>int(10 * 0.3)\<close> is 3, where the doubles nearest to 0.58
  and 0.3 are both below the numbers written.
\<close>

lemma overlap_budget_examples:
  "overlap_budget 50 (58/100) = Inr 28"
  "overlap_budget 10 (3/10) = Inr 3"
  "to_double (3/10) < 3/10"
  "overlap_budget 500 (12/100) = Inr 60"
  by code_simp+


section \<open>Lengths of joined sentences\<close>

lemma joined_len_Nil [simp]: "joined_len [] = 0"
  by (simp add: joined_len_def)

lemma joined_len_single [simp]: "joined_len [s] = int (length s)"
  by (simp add: joined_len_def)

lemma joined_len_Cons2 [simp]:
  "joined_len (s # t # r) = int (length s) + 1 + joined_len (t # r)"
  by (simp add: joined_len_def)

lemma joined_len_Cons: "joined_len (s # r) = int (length s) + (if r = [] then 0 else 1 + joined_len r)"
  by (cases r) simp_all

lemma joined_len_nonneg: "0 \<le> joined_len xs"
proof -
  have "0 \<le> sum_list (map (\<lambda>s. int (length s)) xs)"
    by (rule sum_list_nonneg) auto
  then show ?thesis by (simp add: joined_len_def)
qed

lemma joined_len_snoc:
  "joined_len (xs @ [s]) = joined_len xs + int (length s) + (if xs \<noteq> [] then 1 else 0)"
  by (induction xs rule: induct_list012) simp_all

lemma joined_len_append_ge: "joined_len ys \<le> joined_len (xs @ ys)"
proof (induction xs)
  case Nil
  show ?case by simp
next
  case (Cons x xs)
  have "joined_len (xs @ ys) \<le> joined_len (x # xs @ ys)"
    using joined_len_nonneg[of "xs @ ys"] by (simp add: joined_len_Cons)
  with Cons show ?case by simp
qed

lemma length_join_sp: "int (length (join_sp xs)) = joined_len xs"
  by (induction xs rule: join_sp.induct) simp_all

lemma chunk_loop_induct [consumes 1, case_names exit accept emit]:
  assumes run: "chunk_loop csize oc nm src ss i cur cl chunks cid = Some r"
    and exit: "\<And>i cur cl chunks cid. \<not> i < length ss \<Longrightarrow> P i cur cl chunks cid (chunks, cid, cur)"
    and accept: "\<And>i cur cl chunks cid r.
        i < length ss \<Longrightarrow>
        cl + int (length (ss ! i)) + (if cur \<noteq> [] then 1 else 0) \<le> csize \<or> cur = [] \<Longrightarrow>
        chunk_loop csize oc nm src ss (i + 1) (cur @ [ss ! i])
          (cl + int (length (ss ! i)) + (if cur \<noteq> [] then 1 else 0)) chunks cid = Some r \<Longrightarrow>
        P (i + 1) (cur @ [ss ! i]) (cl + int (length (ss ! i)) + (if cur \<noteq> [] then 1 else 0))
          chunks cid r \<Longrightarrow>
        P i cur cl chunks cid r"
    and emit: "\<And>i cur cl chunks cid r.
        i < length ss \<Longrightarrow> cur \<noteq> [] \<Longrightarrow>
        csize < cl + int (length (ss ! i)) + 1 \<Longrightarrow>
        chunk_loop csize oc nm src ss i (overlap_walk oc (rev cur) [] 0)
          (joined_len (overlap_walk oc (rev cur) [] 0))
          (chunks @ [mk_chunk cur nm src cid]) (cid + 1) = Some r \<Longrightarrow>
        P i (overlap_walk oc (rev cur) [] 0) (joined_len (overlap_walk oc (rev cur) [] 0))
          (chunks @ [mk_chunk cur nm src cid]) (cid + 1) r \<Longrightarrow>
        P i cur cl chunks cid r"
  shows "P i cur cl chunks cid r"
proof -
  have "csize' = csize \<and> oc' = oc \<and> nm' = nm \<and> src' = src \<and> ss' = ss \<longrightarrow>
        chunk_loop csize' oc' nm' src' ss' i cur cl chunks cid = Some r \<longrightarrow> P i cur cl chunks cid r"
    if "chunk_loop csize' oc' nm' src' ss' i cur cl chunks cid = Some r"
    for csize' oc' nm' src' ss'
    using that
  proof (induction rule: chunk_loop.raw_induct[rotated 1, consumes 1])
    case (1 loop csize' oc' nm' src' ss' i cur cl chunks cid r)
    show ?case
    proof (intro impI, elim conjE)
      assume eqs: "csize' = csize" "oc' = oc" "nm' = nm" "src' = src" "ss' = ss"
        and full: "chunk_loop csize' oc' nm' src' ss' i cur cl chunks cid = Some r"
      note IH = 1(1)[rule_format] and step = 1(2)
      show "P i cur cl chunks cid r"
      proof (cases "i < length ss")
        case False
        with step eqs have "r = (chunks, cid, cur)" by simp
        with exit[OF False] show ?thesis by simp
      next
        case lt: True
        let ?proj = "cl + int (length (ss ! i)) + (if cur \<noteq> [] then 1 else 0)"
        show ?thesis
        proof (cases "?proj \<le> csize \<or> cur = []")
          case True
          from step lt True eqs
          have a: "loop csize oc nm src ss (i + 1) (cur @ [ss ! i]) ?proj chunks cid = Some r"
            by (simp add: Let_def)
          from full lt True eqs
          have b: "chunk_loop csize oc nm src ss (i + 1) (cur @ [ss ! i]) ?proj chunks cid = Some r"
            by (subst (asm) chunk_loop.simps) (simp add: Let_def)
          from IH[OF a] b have "P (i + 1) (cur @ [ss ! i]) ?proj chunks cid r" by simp
          from accept[OF lt True b this] show ?thesis .
        next
          case False
          then have ne: "cur \<noteq> []" and big: "csize < cl + int (length (ss ! i)) + 1" by auto
          let ?ov = "overlap_walk oc (rev cur) [] 0"
          from step lt False eqs
          have a: "loop csize oc nm src ss i ?ov (joined_len ?ov)
                     (chunks @ [mk_chunk cur nm src cid]) (cid + 1) = Some r"
            by (simp add: Let_def)
          from full lt False eqs
          have b: "chunk_loop csize oc nm src ss i ?ov (joined_len ?ov)
                     (chunks @ [mk_chunk cur nm src cid]) (cid + 1) = Some r"
            by (subst (asm) chunk_loop.simps) (simp add: Let_def)
          from IH[OF a] b have "P i ?ov (joined_len ?ov) (chunks @ [mk_chunk cur nm src cid]) (cid + 1) r"
            by simp
          from emit[OF lt ne big b this] show ?thesis .
        qed
      qed
    qed
  qed
  from this[OF run] run show ?thesis by simp
qed


lemma overlap_walk_spec:
  assumes "ol = joined_len ov" and "ov \<noteq> [] \<longrightarrow> joined_len ov \<le> oc"
  shows "\<exists>m\<le>length rs.
           overlap_walk oc rs ov ol = rev (take m rs) @ ov \<and>
           (rev (take m rs) @ ov \<noteq> [] \<longrightarrow> joined_len (rev (take m rs) @ ov) \<le> oc) \<and>
           (m < length rs \<longrightarrow> oc < joined_len (rs ! m # rev (take m rs) @ ov))"
  using assms
proof (induction rs arbitrary: ov ol)
  case Nil
  then show ?case by simp
next
  case (Cons s rs)
  show ?case
  proof (cases "ol + int (length s) + (if ov \<noteq> [] then 1 else 0) > oc")
    case True
    with Cons.prems have "oc < joined_len (s # ov)"
      by (auto simp: joined_len_Cons split: if_splits)
    with True Cons.prems show ?thesis
      by (intro exI[of _ 0]) simp
  next
    case False
    let ?ol = "ol + int (length s) + (if length (s # ov) > 1 then 1 else 0)"
    from False Cons.prems have a: "?ol = joined_len (s # ov)" and b: "joined_len (s # ov) \<le> oc"
      by (auto simp: joined_len_Cons split: if_splits)
    from Cons.IH[of ?ol "s # ov"] a b
    obtain m where m: "m \<le> length rs"
      "overlap_walk oc rs (s # ov) ?ol = rev (take m rs) @ s # ov"
      "joined_len (rev (take m rs) @ s # ov) \<le> oc"
      "m < length rs \<longrightarrow> oc < joined_len (rs ! m # rev (take m rs) @ s # ov)"
      by auto
    from False m show ?thesis
      by (intro exI[of _ "Suc m"]) simp
  qed
qed

lemma overlap_seed_decomp:
  "\<exists>pre. g = pre @ overlap_walk oc (rev g) [] 0 \<and>
     (overlap_walk oc (rev g) [] 0 \<noteq> [] \<longrightarrow> joined_len (overlap_walk oc (rev g) [] 0) \<le> oc) \<and>
     (pre \<noteq> [] \<longrightarrow> oc < joined_len (last pre # overlap_walk oc (rev g) [] 0))"
proof -
  from overlap_walk_spec[of 0 "[]" oc "rev g"]
  obtain m where m: "m \<le> length g"
    "overlap_walk oc (rev g) [] 0 = rev (take m (rev g))"
    "rev (take m (rev g)) \<noteq> [] \<longrightarrow> joined_len (rev (take m (rev g))) \<le> oc"
    "m < length g \<longrightarrow> oc < joined_len (rev g ! m # rev (take m (rev g)))"
    by auto
  let ?pre = "take (length g - m) g"
  have seed: "rev (take m (rev g)) = drop (length g - m) g"
    by (simp add: take_rev)
  have dec: "g = ?pre @ drop (length g - m) g" by simp
  have lastpre: "last ?pre = rev g ! m" if "?pre \<noteq> []"
  proof -
    from that have lt: "m < length g" by auto
    with that have "last ?pre = g ! (length g - m - 1)"
      by (simp add: last_conv_nth)
    also have "\<dots> = rev g ! m" using lt by (simp add: rev_nth)
    finally show ?thesis .
  qed
  show ?thesis
  proof (intro exI[of _ ?pre] conjI impI)
    show "g = ?pre @ overlap_walk oc (rev g) [] 0" using dec m(2) seed by simp
    show "joined_len (overlap_walk oc (rev g) [] 0) \<le> oc" if "overlap_walk oc (rev g) [] 0 \<noteq> []"
      using that m(2,3) by simp
    show "oc < joined_len (last ?pre # overlap_walk oc (rev g) [] 0)" if "?pre \<noteq> []"
    proof -
      from that have "m < length g" by auto
      with m(4) lastpre[OF that] m(2) show ?thesis by simp
    qed
  qed
qed

lemma overlap_walk_all:
  assumes "joined_len (rev rs @ ov) \<le> oc" and "ol = joined_len ov"
  shows "overlap_walk oc rs ov ol = rev rs @ ov"
  using assms
proof (induction rs arbitrary: ov ol)
  case Nil
  then show ?case by simp
next
  case (Cons s rs)
  have "joined_len (s # ov) \<le> joined_len (rev rs @ s # ov)"
    by (rule joined_len_append_ge)
  with Cons.prems have fit: "joined_len (s # ov) \<le> oc" by simp
  with Cons.prems have "\<not> ol + int (length s) + (if ov \<noteq> [] then 1 else 0) > oc"
    by (simp add: joined_len_Cons split: if_splits)
  moreover have "ol + int (length s) + (if length (s # ov) > 1 then 1 else 0) = joined_len (s # ov)"
    using Cons.prems by (simp add: joined_len_Cons)
  ultimately show ?case
    using Cons.IH[of "s # ov" "joined_len (s # ov)"] Cons.prems by simp
qed

lemma overlap_seed_idem:
  "overlap_walk oc (rev (overlap_walk oc (rev g) [] 0)) [] 0 = overlap_walk oc (rev g) [] 0"
proof (cases "overlap_walk oc (rev g) [] 0 = []")
  case True
  then show ?thesis by simp
next
  case False
  with overlap_seed_decomp[of g oc] have "joined_len (overlap_walk oc (rev g) [] 0) \<le> oc" by auto
  then show ?thesis
    using overlap_walk_all[of "rev (overlap_walk oc (rev g) [] 0)" "[]" oc 0] by simp
qed

section \<open>The assembly loop can stall\<close>

lemma chunk_loop_stalled:
  assumes "chunk_loop csize oc nm src ss i cur cl chunks cid = Some r"
  shows "\<not> stalled csize oc ss i cur cl"
  using assms
proof (induction rule: chunk_loop.raw_induct[rotated 1, consumes 1])
  case (1 loop csize oc nm src ss i cur cl chunks cid r)
  show ?case
  proof
    assume st: "stalled csize oc ss i cur cl"
    then have a: "i < length ss" "cur \<noteq> []" "joined_len cur = cl"
      "\<not> cl + int (length (ss ! i)) + 1 \<le> csize"
      "overlap_walk oc (rev cur) [] 0 = cur"
      by (simp_all add: stalled_def)
    have "loop csize oc nm src ss i cur cl (chunks @ [mk_chunk cur nm src cid]) (cid + 1) = Some r"
      using 1(2) unfolding Let_def a(5) joined_len_def[symmetric] a(3)
      using a(1,2,4) by simp
    from 1(1)[OF this] st show False by simp
  qed
qed

lemma split_zeta_gamma:
  "split_sentences (str ''Zeta. Gamma delta epsilon.'') = [str ''Zeta.'', str ''Gamma delta epsilon.'']"
  by code_simp

text \<open>
  C1. The claim is that \<open>chunk_section\<close> returns on every input. It does not: with
  \<open>chunk_size = 20\<close> and \<open>overlap_ratio = 0.5\<close>, on the text
  \<open>Zeta. Gamma delta epsilon.\<close> the first sentence is accepted, the second does not fit
  behind it, the chunk \<open>Zeta.\<close> is emitted and the overlap seed is \<open>Zeta.\<close> again,
  so the loop emits the same chunk for ever and \<open>chunk_section\<close> never returns.
\<close>

theorem chunk_section_stalls:
  "chunk_section \<lparr>chunk_size = 20, overlap_ratio = 1/2\<rparr>
     (str ''Zeta. Gamma delta epsilon.'') (str ''Full Text'') (str ''p.pdf'') 0 None = None"
proof -
  let ?ss = "[str ''Zeta.'', str ''Gamma delta epsilon.'']"
  let ?nm = "str ''Full Text''" and ?src = "str ''p.pdf''"
  have st: "stalled 20 10 ?ss 1 [str ''Zeta.''] 5"
    by (simp add: stalled_def joined_len_def str_def)
  have "chunk_loop 20 10 ?nm ?src ?ss 0 [] 0 [] 0 = chunk_loop 20 10 ?nm ?src ?ss 1 [str ''Zeta.''] 5 [] 0"
    by (subst chunk_loop.simps) (simp add: str_def Let_def)
  moreover have "chunk_loop 20 10 ?nm ?src ?ss 1 [str ''Zeta.''] 5 [] 0 = None"
    using chunk_loop_stalled[of 20 10 ?nm ?src ?ss 1 "[str ''Zeta.'']" 5 "[]" 0] st
    by (cases "chunk_loop 20 10 ?nm ?src ?ss 1 [str ''Zeta.''] 5 [] 0") auto
  ultimately have "chunk_loop 20 10 ?nm ?src ?ss 0 [] 0 [] 0 = None" by simp
  moreover have "overlap_budget 20 (1/2) = Inr 10" by code_simp
  ultimately show ?thesis
    by (simp add: chunk_section_def split_zeta_gamma Let_def)
qed


section \<open>Chunk identifiers\<close>

lemma chunk_section_returns:
  assumes "chunk_section self txt nm src start_id eff = Some (Inr chunks)"
    and "split_sentences txt \<noteq> []"
  shows "\<exists>oc cks cid cur.
           overlap_budget (case eff of Some e \<Rightarrow> e | None \<Rightarrow> chunk_size self) (overlap_ratio self)
             = Inr oc \<and>
           chunk_loop (case eff of Some e \<Rightarrow> e | None \<Rightarrow> chunk_size self) oc nm src
             (split_sentences txt) 0 [] 0 [] start_id = Some (cks, cid, cur) \<and>
           chunks = (if cur \<noteq> [] then cks @ [mk_chunk cur nm src cid] else cks)"
proof -
  let ?cs = "case eff of Some e \<Rightarrow> e | None \<Rightarrow> chunk_size self"
  from assms obtain oc where
    oc: "overlap_budget ?cs (overlap_ratio self) = Inr oc"
    by (cases "overlap_budget ?cs (overlap_ratio self)") (simp_all add: chunk_section_def Let_def)
  with assms obtain r where
    r: "chunk_loop ?cs oc nm src (split_sentences txt) 0 [] 0 [] start_id = Some r"
    by (cases "chunk_loop ?cs oc nm src (split_sentences txt) 0 [] 0 [] start_id")
       (simp_all add: chunk_section_def Let_def)
  obtain cks cid cur where rr: "r = (cks, cid, cur)" by (cases r) auto
  from assms oc r have
    "chunks = (if cur \<noteq> [] then cks @ [mk_chunk cur nm src cid] else cks)"
    unfolding rr by (simp add: chunk_section_def Let_def)
  with oc r rr show ?thesis by blast
qed

lemma chunk_loop_ids:
  assumes "chunk_loop csize oc nm src ss i cur cl chunks cid = Some r"
  shows "\<exists>new. fst r = chunks @ new \<and>
           map chunk_id new = map (\<lambda>j. cid + int j) [0..<length new] \<and>
           fst (snd r) = cid + int (length new)"
  using assms
proof (induction rule: chunk_loop_induct)
  case (exit i cur cl chunks cid)
  then show ?case by simp
next
  case (accept i cur cl chunks cid r)
  then show ?case by simp
next
  case (emit i cur cl chunks cid r)
  then obtain new where new: "fst r = (chunks @ [mk_chunk cur nm src cid]) @ new"
    "map chunk_id new = map (\<lambda>j. cid + 1 + int j) [0..<length new]"
    "fst (snd r) = cid + 1 + int (length new)"
    by auto
  let ?new = "mk_chunk cur nm src cid # new"
  have "map chunk_id ?new = map (\<lambda>j. cid + int j) [0..<length ?new]"
    using new(2) by (simp add: map_upt_Suc mk_chunk_def del: upt_Suc)
  with new(1,3) show ?case
    by (intro exI[of _ ?new]) simp
qed

lemma chunk_section_ids:
  assumes "chunk_section self txt nm src start_id eff = Some (Inr chunks)"
  shows "map chunk_id chunks = map (\<lambda>j. start_id + int j) [0..<length chunks]"
proof (cases "split_sentences txt = []")
  case True
  with assms show ?thesis by (simp add: chunk_section_def)
next
  case False
  let ?cs = "case eff of Some e \<Rightarrow> e | None \<Rightarrow> chunk_size self"
  from chunk_section_returns[OF assms False] obtain oc cks cid cur where
    run: "chunk_loop ?cs oc nm src (split_sentences txt) 0 [] 0 [] start_id = Some (cks, cid, cur)"
    and out: "chunks = (if cur \<noteq> [] then cks @ [mk_chunk cur nm src cid] else cks)"
    by blast
  from chunk_loop_ids[OF run]
  have ids: "map chunk_id cks = map (\<lambda>j. start_id + int j) [0..<length cks]"
    and cid: "cid = start_id + int (length cks)"
    by auto
  show ?thesis
    using ids cid out by (simp add: mk_chunk_def)
qed

lemma chunk_paper_loop_ids:
  assumes "chunk_paper_loop self src sections all_chunks running_id = Some (Inr chunks)"
    and "map chunk_id all_chunks = map int [0..<length all_chunks]"
    and "running_id = int (length all_chunks)"
  shows "map chunk_id chunks = map int [0..<length chunks]"
  using assms
proof (induction sections arbitrary: all_chunks running_id)
  case Nil
  then show ?case by simp
next
  case (Cons sec sections)
  from Cons.prems(1) obtain new where
    new: "chunk_section self (sect_text sec) (sect_name sec) src running_id
            (Some (effective_size self (sect_name sec))) = Some (Inr new)"
    and rest: "chunk_paper_loop self src sections (all_chunks @ new)
                 (running_id + int (length new)) = Some (Inr chunks)"
    by (auto simp: Let_def split: option.splits sum.splits)
  have "map chunk_id new = map (\<lambda>j. running_id + int j) [0..<length new]"
    by (rule chunk_section_ids[OF new])
  also have "\<dots> = map int [length all_chunks..<length all_chunks + length new]"
  proof -
    have "map (\<lambda>j. j + length all_chunks) [0..<length new]
            = [length all_chunks..<length new + length all_chunks]"
      by (rule map_add_upt)
    then have "[length all_chunks..<length all_chunks + length new]
            = map (\<lambda>j. j + length all_chunks) [0..<length new]"
      by (simp only: add.commute[of "length all_chunks" "length new"])
    then have A: "map int [length all_chunks..<length all_chunks + length new]
            = map (\<lambda>j. int j + int (length all_chunks)) [0..<length new]"
      by (simp only: map_map o_def of_nat_add)
    have B: "(\<lambda>j. running_id + int j) = (\<lambda>j. int j + int (length all_chunks))"
      using Cons.prems(3) by (auto simp: fun_eq_iff)
    show ?thesis unfolding A B by (rule refl)
  qed
  finally have newids: "map chunk_id new = map int [length all_chunks..<length all_chunks + length new]" .
  have "[0..<length all_chunks + length new]
          = [0..<length all_chunks] @ [length all_chunks..<length all_chunks + length new]"
    using upt_add_eq_append[of 0 "length all_chunks" "length new"] by simp
  then have "map chunk_id (all_chunks @ new) = map int [0..<length (all_chunks @ new)]"
    using Cons.prems(2) newids by simp
  moreover have "running_id + int (length new) = int (length (all_chunks @ new))"
    using Cons.prems(3) by simp
  ultimately show ?case
    using Cons.IH[OF rest] by blast
qed

text \<open>
  C6. When \<open>chunk_paper\<close> returns, the \<open>chunk_id\<close>s of the returned chunks are
  \<open>0, 1, \<dots>, N - 1\<close> in the order of the list, \<open>N\<close> being the number of chunks.
\<close>

theorem chunk_paper_ids:
  assumes "chunk_paper self text_in source = Some (Inr chunks)"
  shows "map chunk_id chunks = map int [0..<length chunks]"
  using chunk_paper_loop_ids[of self source "detect_sections text_in" "[]" 0 chunks] assms
  by (simp add: chunk_paper_def)

theorem chunk_paper_ids_witness:
  "\<exists>chunks.
     chunk_paper \<lparr>chunk_size = 12, overlap_ratio = 0\<rparr>
       (str ''Introduction\<newline>Alpha beta. Gamma delta. Zeta.\<newline>Discussion\<newline>Ee ff.'')
       (str ''p.pdf'') = Some (Inr chunks) \<and>
     length chunks = 4 \<and> map chunk_id chunks = [0, 1, 2, 3]"
proof -
  let ?nm = "str ''Introduction''" and ?src = "str ''p.pdf''"
  let ?out = "[mk_chunk [str ''Alpha beta.''] ?nm ?src 0, mk_chunk [str ''Gamma delta.''] ?nm ?src 1,
               mk_chunk [str ''Zeta.''] ?nm ?src 2, mk_chunk [str ''Ee ff.''] (str ''Discussion'') ?src 3]"
  have run: "chunk_paper \<lparr>chunk_size = 12, overlap_ratio = 0\<rparr>
       (str ''Introduction\<newline>Alpha beta. Gamma delta. Zeta.\<newline>Discussion\<newline>Ee ff.'')
       (str ''p.pdf'') = Some (Inr ?out)"
    by code_simp
  from chunk_paper_ids[OF run] have "map chunk_id ?out = [0, 1, 2, 3]"
    by (simp add: upt_rec)
  with run show ?thesis by simp
qed


section \<open>Chunk sizes\<close>

lemma chunk_loop_sizes:
  assumes "chunk_loop csize oc nm src ss i cur cl chunks cid = Some r"
    and "cl = joined_len cur"
    and "joined_len cur \<le> csize \<or> length cur \<le> 1"
    and "set cur \<subseteq> set ss"
    and "\<forall>c\<in>set chunks. int (length (chunk_text c)) \<le> csize \<or> chunk_text c \<in> set ss"
  shows "(\<forall>c\<in>set (fst r). int (length (chunk_text c)) \<le> csize \<or> chunk_text c \<in> set ss) \<and>
         (joined_len (snd (snd r)) \<le> csize \<or> length (snd (snd r)) \<le> 1) \<and>
         set (snd (snd r)) \<subseteq> set ss"
  using assms
proof (induction rule: chunk_loop_induct)
  case (exit i cur cl chunks cid)
  then show ?case by simp
next
  case (accept i cur cl chunks cid r)
  let ?proj = "cl + int (length (ss ! i)) + (if cur \<noteq> [] then 1 else 0)"
  have len: "?proj = joined_len (cur @ [ss ! i])"
    using accept.prems(1) by (simp add: joined_len_snoc)
  have fit: "joined_len (cur @ [ss ! i]) \<le> csize \<or> length (cur @ [ss ! i]) \<le> 1"
    using accept.hyps(2) len by auto
  have sub: "set (cur @ [ss ! i]) \<subseteq> set ss"
    using accept.prems(3) accept.hyps(1) by simp
  from accept.IH[OF len fit sub accept.prems(4)] show ?case .
next
  case (emit i cur cl chunks cid r)
  let ?seed = "overlap_walk oc (rev cur) [] 0"
  from overlap_seed_decomp[of cur oc] obtain pre where pre: "cur = pre @ ?seed" by blast
  have le: "joined_len ?seed \<le> joined_len cur"
    using joined_len_append_ge[of ?seed pre] pre by simp
  have "length ?seed \<le> length cur"
    using arg_cong[OF pre, of length] by simp
  with le emit.prems(2) have fit: "joined_len ?seed \<le> csize \<or> length ?seed \<le> 1" by linarith
  have sub: "set ?seed \<subseteq> set ss"
    using emit.prems(3) arg_cong[OF pre, of set] by auto
  have "int (length (chunk_text (mk_chunk cur nm src cid))) \<le> csize
        \<or> chunk_text (mk_chunk cur nm src cid) \<in> set ss"
  proof (cases "joined_len cur \<le> csize")
    case True
    then show ?thesis by (simp add: mk_chunk_def length_join_sp)
  next
    case False
    with emit.prems(2) emit.hyps(2) obtain s where "cur = [s]"
      by (cases cur) auto
    with emit.prems(3) show ?thesis by (simp add: mk_chunk_def)
  qed
  with emit.prems(4)
  have cks: "\<forall>c\<in>set (chunks @ [mk_chunk cur nm src cid]).
               int (length (chunk_text c)) \<le> csize \<or> chunk_text c \<in> set ss"
    by auto
  from emit.IH[OF refl fit sub cks] show ?case .
qed

text \<open>
  C4. Every chunk that \<open>chunk_section\<close> returns has a text of at most the effective chunk
  size, or its text is a single sentence of the section. This holds for every chunk size and
  every overlap ratio.
\<close>

theorem chunk_section_size_bound:
  assumes "chunk_section self section_text nm src start_id eff = Some (Inr chunks)"
    and "c \<in> set chunks"
  shows "int (length (chunk_text c)) \<le> (case eff of Some e \<Rightarrow> e | None \<Rightarrow> chunk_size self)
         \<or> chunk_text c \<in> set (split_sentences section_text)"
proof (cases "split_sentences section_text = []")
  case True
  with assms show ?thesis by (simp add: chunk_section_def)
next
  case False
  let ?cs = "case eff of Some e \<Rightarrow> e | None \<Rightarrow> chunk_size self"
  let ?ss = "split_sentences section_text"
  from chunk_section_returns[OF assms(1) False] obtain oc cks cid cur where
    run: "chunk_loop ?cs oc nm src ?ss 0 [] 0 [] start_id = Some (cks, cid, cur)"
    and out: "chunks = (if cur \<noteq> [] then cks @ [mk_chunk cur nm src cid] else cks)"
    by blast
  from chunk_loop_sizes[OF run]
  have a: "\<forall>c\<in>set cks. int (length (chunk_text c)) \<le> ?cs \<or> chunk_text c \<in> set ?ss"
    and b: "joined_len cur \<le> ?cs \<or> length cur \<le> 1" and c: "set cur \<subseteq> set ?ss"
    by auto
  have "int (length (chunk_text (mk_chunk cur nm src cid))) \<le> ?cs
        \<or> chunk_text (mk_chunk cur nm src cid) \<in> set ?ss" if "cur \<noteq> []"
  proof (cases "joined_len cur \<le> ?cs")
    case True
    then show ?thesis by (simp add: mk_chunk_def length_join_sp)
  next
    case False
    with b that obtain s where "cur = [s]" by (cases cur) auto
    with c show ?thesis by (simp add: mk_chunk_def)
  qed
  with a out assms(2) show ?thesis by (auto split: if_splits)
qed

theorem chunk_section_size_bound_witness:
  "chunk_section \<lparr>chunk_size = 10, overlap_ratio = 0\<rparr> (str ''Alpha beta. Zeta.'')
     (str ''Full Text'') (str ''p.pdf'') 0 None
     = Some (Inr [mk_chunk [str ''Alpha beta.''] (str ''Full Text'') (str ''p.pdf'') 0,
                  mk_chunk [str ''Zeta.''] (str ''Full Text'') (str ''p.pdf'') 1]) \<and>
   \<not> int (length (str ''Alpha beta.'')) \<le> 10 \<and>
   str ''Alpha beta.'' \<in> set (split_sentences (str ''Alpha beta. Zeta.''))"
proof -
  let ?c = "mk_chunk [str ''Alpha beta.''] (str ''Full Text'') (str ''p.pdf'') 0"
  let ?d = "mk_chunk [str ''Zeta.''] (str ''Full Text'') (str ''p.pdf'') 1"
  have run: "chunk_section \<lparr>chunk_size = 10, overlap_ratio = 0\<rparr> (str ''Alpha beta. Zeta.'')
     (str ''Full Text'') (str ''p.pdf'') 0 None = Some (Inr [?c, ?d])"
    by code_simp
  have mem: "?c \<in> set [?c, ?d]" by simp
  have big: "\<not> int (length (str ''Alpha beta.'')) \<le> 10" by (simp add: str_def)
  from chunk_section_size_bound[OF run mem] big
  have "str ''Alpha beta.'' \<in> set (split_sentences (str ''Alpha beta. Zeta.''))"
    by (simp add: mk_chunk_def)
  with run big show ?thesis by simp
qed


section \<open>Overlap between consecutive chunks\<close>

lemma py_slice_same [simp]: "py_slice a a xs = []"
  by (simp add: py_slice_def)

lemma py_slice_step:
  assumes "a < b" and "b \<le> length xs"
  shows "py_slice a b xs = xs ! a # py_slice (Suc a) b xs"
proof -
  from assms have "drop a xs = xs ! a # drop (Suc a) xs"
    by (simp add: Cons_nth_drop_Suc)
  moreover from assms obtain d where "b - a = Suc d" and "b - Suc a = d"
    by (cases "b - a") auto
  ultimately show ?thesis by (simp add: py_slice_def)
qed

lemma py_slice_all [simp]: "py_slice 0 (length xs) xs = xs"
  by (simp add: py_slice_def)

lemma split_sentences_nonempty: "s \<in> set (split_sentences t) \<Longrightarrow> s \<noteq> []"
  by (simp add: split_sentences_def)

lemma joined_len_pos:
  assumes "xs \<noteq> []" and "\<forall>s\<in>set xs. s \<noteq> []"
  shows "1 \<le> joined_len xs"
proof -
  from assms(1) obtain s r where xs: "xs = s # r" by (cases xs) auto
  with assms(2) have "1 \<le> int (length s)" by (cases s) auto
  moreover have "0 \<le> joined_len r" by (rule joined_len_nonneg)
  ultimately show ?thesis unfolding xs joined_len_Cons by simp
qed

lemma py_int_ge:
  assumes "1 \<le> L" and "L \<le> py_int p"
  shows "of_int L \<le> p"
proof (cases "0 \<le> p")
  case True
  with assms(2) show ?thesis by (simp add: py_int_def le_floor_iff)
next
  case False
  then have "\<lceil>p\<rceil> \<le> 0" by (simp add: ceiling_le_iff)
  with False assms show ?thesis by (simp add: py_int_def)
qed

lemma py_int_less:
  assumes "py_int p < L"
  shows "p < of_int L"
proof (cases "0 \<le> p")
  case True
  with assms show ?thesis by (simp add: py_int_def floor_less_iff)
next
  case False
  with assms have "\<lceil>p\<rceil> < L" by (simp add: py_int_def)
  then have "p \<le> of_int L - 1" by (simp add: ceiling_less_iff)
  then show ?thesis by simp
qed

lemma overlap_link_budget:
  assumes "overlap_link csize (of_int (py_int p)) ss g g'"
    and "\<forall>s\<in>set ss. s \<noteq> []"
  shows "overlap_link csize p ss g g'"
proof -
  from assms(1) obtain pre seed k rest before where l:
    "g = pre @ seed"
    "seed \<noteq> [] \<longrightarrow> joined_len seed \<le> py_int p"
    "pre \<noteq> [] \<longrightarrow> py_int p < joined_len (last pre # seed)"
    "k < length ss" "take k ss = before @ g"
    "csize < joined_len (g @ [ss ! k])"
    "g' = seed @ ss ! k # rest"
    unfolding overlap_link_def of_int_le_iff of_int_less_iff by blast
  have "set seed \<subseteq> set (take k ss)" using l(1,5) by auto
  also have "\<dots> \<subseteq> set ss" by (rule set_take_subset)
  finally have ne: "\<forall>s\<in>set seed. s \<noteq> []" using assms(2) by blast
  have a: "seed \<noteq> [] \<longrightarrow> of_int (joined_len seed) \<le> p"
    using l(2) joined_len_pos[OF _ ne] py_int_ge by blast
  have b: "pre \<noteq> [] \<longrightarrow> p < of_int (joined_len (last pre # seed))"
    using l(3) py_int_less by blast
  from a b l(1,4,5,6,7) show ?thesis unfolding overlap_link_def by blast
qed

lemma chunk_loop_links:
  assumes "chunk_loop csize oc nm src ss i cur cl chunks cid = Some r"
    and "cl = joined_len cur"
    and "i \<le> length ss"
    and "\<exists>before. take i ss = before @ cur"
  shows "\<exists>G new e.
           fst r = chunks @ new \<and> map chunk_text new = map join_sp G \<and>
           successively (overlap_link csize (of_int oc) ss) (G @ [snd (snd r)]) \<and>
           i \<le> e \<and> e \<le> length ss \<and>
           hd (G @ [snd (snd r)]) = cur @ py_slice i e ss \<and>
           (G \<noteq> [] \<longrightarrow> e < length ss \<and> hd G \<noteq> [] \<and> csize < joined_len (hd G @ [ss ! e])) \<and>
           (G = [] \<longrightarrow> e = length ss)"
  using assms
proof (induction rule: chunk_loop_induct)
  case (exit i cur cl chunks cid)
  then have "i = length ss" by simp
  then show ?case
    by (intro exI[of _ "[]"] exI[of _ "length ss"]) simp
next
  case (accept i cur cl chunks cid r)
  let ?proj = "cl + int (length (ss ! i)) + (if cur \<noteq> [] then 1 else 0)"
  have len: "?proj = joined_len (cur @ [ss ! i])"
    using accept.prems(1) by (simp add: joined_len_snoc)
  have le: "i + 1 \<le> length ss" using accept.hyps(1) by simp
  from accept.prems(3) obtain before where "take i ss = before @ cur" by blast
  then have "take (i + 1) ss = before @ cur @ [ss ! i]"
    using accept.hyps(1) by (simp add: take_Suc_conv_app_nth)
  then have suf: "\<exists>before. take (i + 1) ss = before @ cur @ [ss ! i]" by blast
  from accept.IH[OF len le suf]
  obtain G new e where IH:
    "fst r = chunks @ new" "map chunk_text new = map join_sp G"
    "successively (overlap_link csize (of_int oc) ss) (G @ [snd (snd r)])"
    "i + 1 \<le> e" "e \<le> length ss"
    "hd (G @ [snd (snd r)]) = (cur @ [ss ! i]) @ py_slice (i + 1) e ss"
    "G \<noteq> [] \<longrightarrow> e < length ss \<and> hd G \<noteq> [] \<and> csize < joined_len (hd G @ [ss ! e])"
    "G = [] \<longrightarrow> e = length ss"
    by blast
  have "py_slice i e ss = ss ! i # py_slice (Suc i) e ss"
    using IH(4,5) by (intro py_slice_step) simp_all
  with IH(6) have "hd (G @ [snd (snd r)]) = cur @ py_slice i e ss" by simp
  moreover have "i \<le> e" using IH(4) by simp
  ultimately show ?case using IH(1,2,3,5,7,8) by blast
next
  case (emit i cur cl chunks cid r)
  let ?seed = "overlap_walk oc (rev cur) [] 0"
  let ?c = "mk_chunk cur nm src cid"
  from overlap_seed_decomp[of cur oc] obtain pre where pre:
    "cur = pre @ ?seed" "?seed \<noteq> [] \<longrightarrow> joined_len ?seed \<le> oc"
    "pre \<noteq> [] \<longrightarrow> oc < joined_len (last pre # ?seed)"
    by blast
  from emit.prems(3) obtain before where before: "take i ss = before @ cur" by blast
  with pre(1) have "take i ss = (before @ pre) @ ?seed" by simp
  then have suf: "\<exists>before. take i ss = before @ ?seed" by blast
  from emit.IH[OF refl emit.prems(2) suf]
  obtain G new e where IH:
    "fst r = (chunks @ [?c]) @ new" "map chunk_text new = map join_sp G"
    "successively (overlap_link csize (of_int oc) ss) (G @ [snd (snd r)])"
    "i \<le> e" "e \<le> length ss"
    "hd (G @ [snd (snd r)]) = ?seed @ py_slice i e ss"
    "G \<noteq> [] \<longrightarrow> e < length ss \<and> hd G \<noteq> [] \<and> csize < joined_len (hd G @ [ss ! e])"
    "G = [] \<longrightarrow> e = length ss"
    by blast
  have over: "csize < joined_len (cur @ [ss ! i])"
    using emit.hyps(2,3) emit.prems(1) by (simp add: joined_len_snoc)
  have "e \<noteq> i"
  proof
    assume "e = i"
    with IH(8) emit.hyps(1) have "G \<noteq> []" by auto
    with IH(6,7) \<open>e = i\<close> have hdG: "hd G = ?seed" "?seed \<noteq> []"
      "csize < joined_len (?seed @ [ss ! i])"
      by auto
    then have "stalled csize oc ss i ?seed (joined_len ?seed)"
      using emit.hyps(1) by (simp add: stalled_def joined_len_snoc overlap_seed_idem)
    with chunk_loop_stalled[OF emit.hyps(4)] show False by simp
  qed
  with IH(4) have "i < e" by simp
  then have "py_slice i e ss = ss ! i # py_slice (Suc i) e ss"
    using IH(5) by (intro py_slice_step)
  with IH(6) have first: "hd (G @ [snd (snd r)]) = ?seed @ ss ! i # py_slice (Suc i) e ss"
    by simp
  have link: "overlap_link csize (of_int oc) ss cur (hd (G @ [snd (snd r)]))"
    unfolding overlap_link_def of_int_le_iff of_int_less_iff
    using pre before over emit.hyps(1) first by blast
  have succ: "successively (overlap_link csize (of_int oc) ss) ((cur # G) @ [snd (snd r)])"
    using link IH(3) by (simp add: successively_Cons)
  have "fst r = chunks @ (?c # new)" using IH(1) by simp
  moreover have "map chunk_text (?c # new) = map join_sp (cur # G)"
    using IH(2) by (simp add: mk_chunk_def)
  moreover have "hd ((cur # G) @ [snd (snd r)]) = cur @ py_slice i i ss" by simp
  moreover have "cur # G \<noteq> [] \<longrightarrow>
      i < length ss \<and> hd (cur # G) \<noteq> [] \<and> csize < joined_len (hd (cur # G) @ [ss ! i])"
    using emit.hyps(1,2) over by simp
  ultimately show ?case
    using succ emit.prems(2)
    by (intro exI[of _ "cur # G"] exI[of _ "?c # new"] exI[of _ i]) simp
qed

text \<open>
  C5. The chunks that \<open>chunk_section\<close> returns are the joined texts of sentence groups, and
  any two consecutive groups are linked: the longest run of trailing sentences of the first
  that stays within the overlap budget, the float product \<open>chunk_size * overlap_ratio\<close>,
  opens the second, followed at once by the sentence that did not fit behind the first.
\<close>

theorem chunk_section_overlap:
  assumes "chunk_section self section_text nm src start_id eff = Some (Inr chunks)"
  shows "\<exists>groups.
           map chunk_text chunks = map join_sp groups \<and>
           (\<forall>j. Suc j < length groups \<longrightarrow>
              overlap_link (case eff of Some e \<Rightarrow> e | None \<Rightarrow> chunk_size self)
                (float_product (case eff of Some e \<Rightarrow> e | None \<Rightarrow> chunk_size self)
                   (overlap_ratio self))
                (split_sentences section_text) (groups ! j) (groups ! Suc j))"
proof (cases "split_sentences section_text = []")
  case True
  with assms have "chunks = []" by (simp add: chunk_section_def)
  then show ?thesis by (intro exI[of _ "[]"]) simp
next
  case False
  let ?cs = "case eff of Some e \<Rightarrow> e | None \<Rightarrow> chunk_size self"
  let ?p = "float_product ?cs (overlap_ratio self)"
  let ?ss = "split_sentences section_text"
  from chunk_section_returns[OF assms False] obtain oc cks cid cur where
    budget: "overlap_budget ?cs (overlap_ratio self) = Inr oc"
    and run: "chunk_loop ?cs oc nm src ?ss 0 [] 0 [] start_id = Some (cks, cid, cur)"
    and out: "chunks = (if cur \<noteq> [] then cks @ [mk_chunk cur nm src cid] else cks)"
    by blast
  from budget have oc: "oc = py_int ?p"
    by (simp add: overlap_budget_def split: if_splits)
  from chunk_loop_links[OF run]
  obtain G e where G: "map chunk_text cks = map join_sp G"
    "successively (overlap_link ?cs (of_int oc) ?ss) (G @ [cur])"
    "hd (G @ [cur]) = py_slice 0 e ?ss" "G = [] \<longrightarrow> e = length ?ss"
    by auto
  have "cur \<noteq> []"
  proof (cases "G = []")
    case True
    with G(3,4) False show ?thesis by simp
  next
    case False
    then have "overlap_link ?cs (of_int oc) ?ss (last G) cur"
      using G(2) by (simp add: successively_append_iff)
    then show ?thesis by (auto simp: overlap_link_def)
  qed
  with out G(1) have texts: "map chunk_text chunks = map join_sp (G @ [cur])"
    by (simp add: mk_chunk_def)
  have ne: "\<forall>s\<in>set ?ss. s \<noteq> []" using split_sentences_nonempty by blast
  have "\<forall>j. Suc j < length (G @ [cur]) \<longrightarrow>
          overlap_link ?cs ?p ?ss ((G @ [cur]) ! j) ((G @ [cur]) ! Suc j)"
  proof (intro allI impI)
    fix j assume "Suc j < length (G @ [cur])"
    with G(2) have "overlap_link ?cs (of_int (py_int ?p)) ?ss ((G @ [cur]) ! j) ((G @ [cur]) ! Suc j)"
      unfolding successively_conv_nth oc by blast
    then show "overlap_link ?cs ?p ?ss ((G @ [cur]) ! j) ((G @ [cur]) ! Suc j)"
      using ne by (rule overlap_link_budget)
  qed
  with texts show ?thesis by blast
qed

theorem chunk_section_overlap_witness:
  "chunk_section \<lparr>chunk_size = 50, overlap_ratio = 58/100\<rparr>
     (str ''Aaaa bbbb. Ccccccccc dddddddd. Eeee fff. Gggggg hhhh.'')
     (str ''Full Text'') (str ''p.pdf'') 0 None
     = Some (Inr [mk_chunk [str ''Aaaa bbbb.'', str ''Ccccccccc dddddddd.'', str ''Eeee fff.'']
                    (str ''Full Text'') (str ''p.pdf'') 0,
                  mk_chunk [str ''Eeee fff.'', str ''Gggggg hhhh.'']
                    (str ''Full Text'') (str ''p.pdf'') 1]) \<and>
   28 < float_product 50 (58/100) \<and> float_product 50 (58/100) < 29 \<and>
   (\<exists>groups.
      [str ''Aaaa bbbb. Ccccccccc dddddddd. Eeee fff.'', str ''Eeee fff. Gggggg hhhh.'']
        = map join_sp groups \<and>
      overlap_link 50 (float_product 50 (58/100))
        (split_sentences (str ''Aaaa bbbb. Ccccccccc dddddddd. Eeee fff. Gggggg hhhh.''))
        (groups ! 0) (groups ! 1))"
proof -
  let ?t = "str ''Aaaa bbbb. Ccccccccc dddddddd. Eeee fff. Gggggg hhhh.''"
  let ?c = "mk_chunk [str ''Aaaa bbbb.'', str ''Ccccccccc dddddddd.'', str ''Eeee fff.'']
              (str ''Full Text'') (str ''p.pdf'') 0"
  let ?d = "mk_chunk [str ''Eeee fff.'', str ''Gggggg hhhh.''] (str ''Full Text'') (str ''p.pdf'') 1"
  have run: "chunk_section \<lparr>chunk_size = 50, overlap_ratio = 58/100\<rparr>
     ?t (str ''Full Text'') (str ''p.pdf'') 0 None = Some (Inr [?c, ?d])"
    by code_simp
  have lo: "28 < float_product 50 (58/100)" by code_simp
  have hi: "float_product 50 (58/100) < 29" by code_simp
  have texts: "map chunk_text [?c, ?d]
                 = [str ''Aaaa bbbb. Ccccccccc dddddddd. Eeee fff.'', str ''Eeee fff. Gggggg hhhh.'']"
    by (simp add: mk_chunk_def str_def)
  have "\<exists>groups. map chunk_text [?c, ?d] = map join_sp groups \<and>
    (\<forall>j. Suc j < length groups \<longrightarrow>
       overlap_link 50 (float_product 50 (58/100)) (split_sentences ?t)
         (groups ! j) (groups ! Suc j))"
    using chunk_section_overlap[OF run] by simp
  then obtain groups where
    g: "map chunk_text [?c, ?d] = map join_sp groups"
    "\<forall>j. Suc j < length groups \<longrightarrow>
       overlap_link 50 (float_product 50 (58/100)) (split_sentences ?t)
         (groups ! j) (groups ! Suc j)"
    by blast
  have "length (map chunk_text [?c, ?d]) = length (map join_sp groups)"
    by (simp only: g(1))
  then have "length groups = 2" by simp
  with g(2) have "overlap_link 50 (float_product 50 (58/100)) (split_sentences ?t)
         (groups ! 0) (groups ! 1)"
    by simp
  with g(1) texts run lo hi show ?thesis by metis
qed


section \<open>Texts without headers\<close>

lemma finditer_no_match:
  assumes "\<forall>p\<le>length t. rmatch r t p Some = None"
  shows "finditer r t q = []"
  using assms
proof (induction r t q rule: finditer.induct)
  case (1 r t p)
  show ?case
  proof (cases "length t < p")
    case True
    then show ?thesis by (subst finditer.simps) simp
  next
    case False
    with "1.prems" have none: "rmatch r t p Some = None" by simp
    with False "1.IH"(1) "1.prems" have "finditer r t (p + 1) = []" by simp
    with False none show ?thesis by (subst finditer.simps) simp
  qed
qed

lemma finditer_Nil_no_match:
  assumes "finditer r t q = []" and "q \<le> p" and "p \<le> length t"
  shows "rmatch r t p Some = None"
  using assms
proof (induction r t q rule: finditer.induct)
  case (1 r t q)
  from "1.prems"(2,3) have le: "\<not> length t < q" by simp
  have "finditer r t q =
          (case rmatch r t q Some of
             None \<Rightarrow> finditer r t (q + 1)
           | Some e \<Rightarrow> (q, e) # finditer r t (if q < e then e else q + 1))"
    using le by (subst finditer.simps) simp
  with "1.prems"(1) have step: "rmatch r t q Some = None" "finditer r t (q + 1) = []"
    by (simp_all split: option.splits)
  show ?case
  proof (cases "p = q")
    case True
    with step(1) show ?thesis by simp
  next
    case False
    with "1.prems"(2) have "q + 1 \<le> p" by simp
    from "1.IH"(1)[OF le step(1) step(2) this "1.prems"(3)] show ?thesis .
  qed
qed

lemma header_matches_Nil:
  "header_matches t = [] \<longleftrightarrow>
     (\<forall>(pattern, name)\<in>set SECTION_PATTERNS. \<forall>p\<le>length t. rmatch pattern t p Some = None)"
proof
  assume "header_matches t = []"
  then have "\<forall>(pattern, name)\<in>set SECTION_PATTERNS. finditer pattern t 0 = []"
    by (auto simp: header_matches_def)
  then show "\<forall>(pattern, name)\<in>set SECTION_PATTERNS. \<forall>p\<le>length t. rmatch pattern t p Some = None"
    using finditer_Nil_no_match[of _ t 0] by (auto simp: case_prod_beta)
next
  assume "\<forall>(pattern, name)\<in>set SECTION_PATTERNS. \<forall>p\<le>length t. rmatch pattern t p Some = None"
  then have "\<forall>(pattern, name)\<in>set SECTION_PATTERNS. finditer pattern t 0 = []"
    using finditer_no_match[of t] by (auto simp: case_prod_beta)
  then show "header_matches t = []"
    by (auto simp: header_matches_def)
qed

text \<open>
  C8. When no header pattern matches at any position of the text, \<open>detect_sections\<close>
  returns the single section \<open>Full Text\<close> whose text is the input as it is.
  \<open>detect_sections\<close> has no error result.
\<close>

theorem detect_sections_no_headers:
  assumes "\<forall>(pattern, name)\<in>set SECTION_PATTERNS.
             \<forall>p\<le>length text_in. rmatch pattern text_in p Some = None"
  shows "detect_sections text_in = [\<lparr>sect_name = str ''Full Text'', sect_text = text_in\<rparr>]"
proof -
  from assms have "header_matches text_in = []" by (simp only: header_matches_Nil)
  then show ?thesis by (simp add: detect_sections_def)
qed

theorem detect_sections_no_headers_witness:
  "detect_sections (str ''  No headers. Just text.'')
     = [\<lparr>sect_name = str ''Full Text'', sect_text = str ''  No headers. Just text.''\<rparr>]"
proof -
  have "header_matches (str ''  No headers. Just text.'') = []" by code_simp
  then have "\<forall>(pattern, name)\<in>set SECTION_PATTERNS.
      \<forall>p\<le>length (str ''  No headers. Just text.'').
        rmatch pattern (str ''  No headers. Just text.'') p Some = None"
    by (simp only: header_matches_Nil)
  from detect_sections_no_headers[OF this] show ?thesis .
qed


section \<open>Section-specific budgets\<close>

lemma map_of_section_sizes:
  "map_of SECTION_CHUNK_SIZES name =
     (if name = str ''Abstract'' then Some 2000
      else if name = str ''Methods'' then Some 1000
      else if name = str ''Methodology'' then Some 1000
      else if name = str ''Results'' then Some 800
      else None)"
  by (simp add: SECTION_CHUNK_SIZES_def)

lemma section_names_distinct:
  "str ''Abstract'' \<noteq> str ''Methods''" "str ''Abstract'' \<noteq> str ''Methodology''"
  "str ''Abstract'' \<noteq> str ''Results''" "str ''Methods'' \<noteq> str ''Methodology''"
  "str ''Methods'' \<noteq> str ''Results''" "str ''Methodology'' \<noteq> str ''Results''"
  by (simp_all add: str_def)

lemma effective_size_cases:
  "effective_size self name =
     (if name = str ''Abstract'' then 2000
      else if name = str ''Methods'' then 1000
      else if name = str ''Methodology'' then 1000
      else if name = str ''Results'' then 800
      else chunk_size self)"
  by (simp add: effective_size_def map_of_section_sizes)

lemma spec_budget_effective: "spec_budget self name = effective_size self name"
  by (simp add: spec_budget_def effective_size_cases)

lemma chunk_paper_loop_spec:
  "chunk_paper_loop self src secs all_chunks running_id =
     (case spec_chunk_sections self src secs running_id of
        None \<Rightarrow> None
      | Some (Inl e) \<Rightarrow> Some (Inl e)
      | Some (Inr later) \<Rightarrow> Some (Inr (all_chunks @ later)))"
proof (induction secs arbitrary: all_chunks running_id)
  case Nil
  then show ?case by simp
next
  case (Cons sec secs)
  show ?case
  proof (cases "chunk_section self (sect_text sec) (sect_name sec) src running_id
                  (Some (effective_size self (sect_name sec)))")
    case None
    then show ?thesis by (simp add: spec_budget_effective)
  next
    case (Some res)
    show ?thesis
    proof (cases res)
      case (Inl e)
      with Some show ?thesis by (simp add: spec_budget_effective)
    next
      case (Inr new)
      with Some Cons.IH[of "all_chunks @ new" "running_id + int (length new)"]
      show ?thesis
        by (simp add: spec_budget_effective split: option.splits sum.splits)
    qed
  qed
qed

text \<open>
  C9, as amended. \<open>chunk_paper\<close> chunks the detected sections in order, each with the budget
  \<open>spec_budget\<close>: the fixed budget of the override table for a section whose name is in the
  table (Abstract 2000, Methods 1000, Methodology 1000, Results 800), which is larger than
  \<open>DEFAULT_CHUNK_SIZE\<close> and larger than the configured \<open>chunk_size\<close> whenever that is
  below 800, and the configured \<open>chunk_size\<close> for every other section. The equation holds
  whether the call returns, raises or does not end.
\<close>

theorem chunk_paper_budgets:
  "chunk_paper self text_in source = spec_chunk_sections self source (detect_sections text_in) 0 \<and>
   (\<forall>name\<in>fst ` set SECTION_CHUNK_SIZES.
      DEFAULT_CHUNK_SIZE < spec_budget self name \<and>
      (chunk_size self < 800 \<longrightarrow> chunk_size self < spec_budget self name)) \<and>
   (\<forall>name. name \<notin> fst ` set SECTION_CHUNK_SIZES \<longrightarrow> spec_budget self name = chunk_size self)"
proof -
  have eq: "chunk_paper self text_in source
              = spec_chunk_sections self source (detect_sections text_in) 0"
    unfolding chunk_paper_def chunk_paper_loop_spec
    by (simp split: option.splits sum.splits)
  have names: "fst ` set SECTION_CHUNK_SIZES
                 = {str ''Abstract'', str ''Methods'', str ''Methodology'', str ''Results''}"
    by (auto simp: SECTION_CHUNK_SIZES_def)
  note ne = section_names_distinct section_names_distinct[symmetric]
  have vals: "spec_budget self (str ''Abstract'') = 2000"
    "spec_budget self (str ''Methods'') = 1000"
    "spec_budget self (str ''Methodology'') = 1000"
    "spec_budget self (str ''Results'') = 800"
    by (simp_all add: spec_budget_def ne)
  have inside: "\<forall>name\<in>fst ` set SECTION_CHUNK_SIZES.
      DEFAULT_CHUNK_SIZE < spec_budget self name \<and>
      (chunk_size self < 800 \<longrightarrow> chunk_size self < spec_budget self name)"
    using vals unfolding names by (simp add: DEFAULT_CHUNK_SIZE_def)
  have outside: "\<forall>name. name \<notin> fst ` set SECTION_CHUNK_SIZES \<longrightarrow>
      spec_budget self name = chunk_size self"
    unfolding names by (simp add: spec_budget_def)
  from eq inside outside show ?thesis by (intro conjI)
qed

theorem chunk_paper_budgets_witness:
  "chunk_paper \<lparr>chunk_size = 10, overlap_ratio = 0\<rparr>
     (str ''Results\<newline>Aa bb. Cc dd.\<newline>Discussion\<newline>Ee ff. Gg hh.'') (str ''p.pdf'')
     = Some (Inr [mk_chunk [str ''Aa bb.'', str ''Cc dd.''] (str ''Results'') (str ''p.pdf'') 0,
                  mk_chunk [str ''Ee ff.''] (str ''Discussion'') (str ''p.pdf'') 1,
                  mk_chunk [str ''Gg hh.''] (str ''Discussion'') (str ''p.pdf'') 2]) \<and>
   spec_budget \<lparr>chunk_size = 10, overlap_ratio = 0\<rparr> (str ''Results'') = 800 \<and>
   DEFAULT_CHUNK_SIZE < spec_budget \<lparr>chunk_size = 10, overlap_ratio = 0\<rparr> (str ''Results'') \<and>
   chunk_size \<lparr>chunk_size = 10, overlap_ratio = 0\<rparr>
     < spec_budget \<lparr>chunk_size = 10, overlap_ratio = 0\<rparr> (str ''Results'') \<and>
   spec_budget \<lparr>chunk_size = 10, overlap_ratio = 0\<rparr> (str ''Discussion'') = 10"
proof -
  let ?self = "\<lparr>chunk_size = 10, overlap_ratio = 0\<rparr>"
  let ?t = "str ''Results\<newline>Aa bb. Cc dd.\<newline>Discussion\<newline>Ee ff. Gg hh.''"
  note budgets = chunk_paper_budgets[of ?self ?t "str ''p.pdf''"]
  have run: "spec_chunk_sections ?self (str ''p.pdf'') (detect_sections ?t) 0
     = Some (Inr [mk_chunk [str ''Aa bb.'', str ''Cc dd.''] (str ''Results'') (str ''p.pdf'') 0,
                  mk_chunk [str ''Ee ff.''] (str ''Discussion'') (str ''p.pdf'') 1,
                  mk_chunk [str ''Gg hh.''] (str ''Discussion'') (str ''p.pdf'') 2])"
    by code_simp
  have a: "str ''Results'' \<in> fst ` set SECTION_CHUNK_SIZES"
    by (simp add: SECTION_CHUNK_SIZES_def)
  have b: "str ''Discussion'' \<notin> fst ` set SECTION_CHUNK_SIZES"
    by (simp add: SECTION_CHUNK_SIZES_def str_def)
  have r: "spec_budget ?self (str ''Results'') = 800"
    by (simp add: spec_budget_def section_names_distinct section_names_distinct[symmetric])
  from budgets have c1: "chunk_paper ?self ?t (str ''p.pdf'')
                       = spec_chunk_sections ?self (str ''p.pdf'') (detect_sections ?t) 0"
    by (rule conjunct1)
  from budgets a have c2: "DEFAULT_CHUNK_SIZE < spec_budget ?self (str ''Results'') \<and>
      (chunk_size ?self < 800 \<longrightarrow> chunk_size ?self < spec_budget ?self (str ''Results''))"
    by blast
  from budgets b have c3: "spec_budget ?self (str ''Discussion'') = chunk_size ?self"
    by blast
  from c1 run c2 c3 r show ?thesis by simp
qed

text \<open>
  C9 as stated fails: with \<open>chunk_size = 1000\<close> a section named \<open>Results\<close> gets the budget
  800, which is not larger than the configured budget.
\<close>

theorem override_not_larger_counterexample:
  "chunk_paper \<lparr>chunk_size = 1000, overlap_ratio = 12/100\<rparr>
     (str ''Results\<newline>Aa bb. Cc dd.'') (str ''p.pdf'')
     = chunk_section \<lparr>chunk_size = 1000, overlap_ratio = 12/100\<rparr>
         (str ''Aa bb. Cc dd.'') (str ''Results'') (str ''p.pdf'') 0 (Some 800) \<and>
   effective_size \<lparr>chunk_size = 1000, overlap_ratio = 12/100\<rparr> (str ''Results'') = 800 \<and>
   \<not> chunk_size \<lparr>chunk_size = 1000, overlap_ratio = 12/100\<rparr>
       < effective_size \<lparr>chunk_size = 1000, overlap_ratio = 12/100\<rparr> (str ''Results'')"
proof -
  have "detect_sections (str ''Results\<newline>Aa bb. Cc dd.'')
          = [\<lparr>sect_name = str ''Results'', sect_text = str ''Aa bb. Cc dd.''\<rparr>]"
    by code_simp
  then show ?thesis
    by (simp add: chunk_paper_def effective_size_cases section_names_distinct
          section_names_distinct[symmetric] split: option.splits sum.splits)
qed

end
